theory Spec2Isabelle
  imports Main
begin

section \<open>The dependency graph of fabric: data model\<close>

text \<open>
  The Go package keeps a dependency graph \<^verbatim>\<open>Graph{DS *CDS; Top map[DGNode][]*DGNode}\<close>.
  \<^verbatim>\<open>DGNode\<close> is an interface; its implementations live outside the package. A node value
  is modelled as a reference (the identity under which Go's map compares the key) into a memory
  \<open>Obj\<close> of node objects. A node object records what each method of the interface returns
  for that node, together with three facts about its dynamic type and value that the package
  asks for: whether the value can be a map key, whether the type implements \<^verbatim>\<open>UI\<close>, and what
  \<^verbatim>\<open>IsVirtual()\<close> says.

  A \<^verbatim>\<open>*DGNode\<close> is modelled by the node it points to, so the pointers handed to the package are
  never nil. A channel is either the nil channel or \<open>Chan k\<close>, the channel made by the
  \<open>k\<close>-th call of \<^verbatim>\<open>make(chan ...)\<close>.
\<close>

datatype NodeType = UINode | TemporalNode | VirtualTemporalNode | VUINode | VDGNode | Unknown

text \<open>
  Whether a node value can be a key of a Go map. The type may not be comparable at all (it
  holds a slice, a map or a function); or the type is comparable, as \<^verbatim>\<open>reflect\<close> reports it, but
  the value holds an interface whose dynamic value cannot be hashed, and then indexing a map
  with it panics; or the value is usable as a key.
\<close>

datatype keyability = NotComparableType | UnhashableValue | UsableKey

type_synonym DGNode = nat

datatype chan = NilChan | Chan nat

type_synonym SignalingMap = "int \<rightharpoonup> chan"

type_synonym SignalsMap = "int \<rightharpoonup> chan"

text \<open>Nodes and edges of the host structure (\<^verbatim>\<open>Node\<close>, \<^verbatim>\<open>Edge\<close>), and a section of it.\<close>

datatype Node = Node (NodeID: int)

datatype Edge = Edge (Source: Node) (Destination: Node)

record Section =
  ListNodes :: "Node list"
  ListEdges :: "Edge list"

type_synonym CDS = Section

text \<open>
  Modelled from the spec: the implementations of the \<^verbatim>\<open>DGNode\<close> and \<^verbatim>\<open>UI\<close> interfaces are not
  part of the package. Following the specification, each node owns an outbound (signaler) map
  keyed by dependent identifier and an inbound (signals) map keyed by dependency identifier,
  \<^verbatim>\<open>UpdateSignaling\<close> replaces both maps wholesale, and the list methods return what the node
  holds. Both maps are allocated (never the nil map, which Go cannot write to), and a node value
  is never the nil interface. A dependency list that is empty is the nil slice.
  \<open>GetSection\<close> is \<open>None\<close> for a nil section pointer.
\<close>

record DGNodeObj =
  ID :: int
  GetType :: NodeType
  ListDependencies :: "DGNode list"
  ListSignalers :: SignalingMap
  ListSignals :: SignalsMap
  Keyability :: keyability
  ImplementsUI :: bool
  IsVirtual :: bool
  GetSection :: "Section option"

text \<open>
  The state: the two fields of \<^verbatim>\<open>Graph\<close>, the memory of node objects and the count of channels
  made so far. \<open>Top\<close> is an association list; its order stands for the order in which
  \<^verbatim>\<open>range g.Top\<close> yields the entries, which Go leaves unspecified. \<open>DS\<close> is \<open>None\<close> for a nil
  pointer.
\<close>

record state =
  DS :: "CDS option"
  Top :: "(DGNode \<times> DGNode list) list"
  Obj :: "DGNode \<Rightarrow> DGNodeObj"
  Chans :: nat

datatype error =
  NotComparable          \<comment> \<open>"Node type is not comparable and cannot be used in the graph topology"\<close>
  | NodeAlreadyExists    \<comment> \<open>"Node already exists in Dependency Graph."\<close>
  | NotAUINode           \<comment> \<open>"Not a UI node"\<close>
  | NotAVirtualNode      \<comment> \<open>"Not a virtual node"\<close>
  | StillHasDependencies \<comment> \<open>"VUI node still has dependencies"\<close>

datatype panic =
  NilDereference    \<comment> \<open>"invalid memory address or nil pointer dereference"\<close>
  | TypeAssertion   \<comment> \<open>"interface conversion"\<close>
  | UnhashableKey   \<comment> \<open>"hash of unhashable type"\<close>

text \<open>\<^verbatim>\<open>NewGraph\<close>: an empty topology and no host structure, over a given memory of nodes.\<close>

definition NewGraph :: "(DGNode \<Rightarrow> DGNodeObj) \<Rightarrow> state" where
  "NewGraph h = \<lparr>DS = None, Top = [], Obj = h, Chans = 0\<rparr>"

text \<open>
  Modelled from the spec: the helpers \<^verbatim>\<open>contains\<close>, \<^verbatim>\<open>containsDGNode\<close>, \<^verbatim>\<open>containsNode\<close> and
  \<^verbatim>\<open>containsEdge\<close> are called by the package but their source is missing. The specification
  speaks of sets (``already on the current path'', ``already fully processed'', ``appears in
  a section''), so each is membership of the element in the slice.
\<close>

definition contains :: "DGNode list \<Rightarrow> DGNode \<Rightarrow> bool" where
  "contains s i = (i \<in> set s)"

definition containsDGNode :: "DGNode list \<Rightarrow> DGNode \<Rightarrow> bool" where
  "containsDGNode s i = (i \<in> set s)"

definition containsNode :: "Node list \<Rightarrow> Node \<Rightarrow> bool" where
  "containsNode s i = (i \<in> set s)"

definition containsEdge :: "Edge list \<Rightarrow> Edge \<Rightarrow> bool" where
  "containsEdge s i = (i \<in> set s)"

section \<open>Signaling\<close>

definition UpdateSignaling :: "DGNode \<Rightarrow> SignalingMap \<Rightarrow> SignalsMap \<Rightarrow> state \<Rightarrow> state" where
  "UpdateSignaling n sm sg s =
     s\<lparr>Obj := (Obj s)(n := (Obj s n)\<lparr>ListSignalers := sm, ListSignals := sg\<rparr>)\<rparr>"

text \<open>\<^verbatim>\<open>make(chan ProcedureSignals)\<close>: a channel no earlier call has returned.\<close>

definition make_chan :: "state \<Rightarrow> chan \<times> state" where
  "make_chan s = (Chan (Chans s), s\<lparr>Chans := Suc (Chans s)\<rparr>)"

section \<open>Topology store\<close>

text \<open>
  \<^verbatim>\<open>reflect.ValueOf(node).Type().Comparable()\<close>, and whether indexing a map with the node value
  goes through.
\<close>

definition Comparable :: "DGNodeObj \<Rightarrow> bool" where
  "Comparable obj = (Keyability obj \<noteq> NotComparableType)"

definition Hashable :: "DGNodeObj \<Rightarrow> bool" where
  "Hashable obj = (Keyability obj = UsableKey)"

text \<open>
  \<^verbatim>\<open>AddRealNode\<close> returns an error and mutates the graph in place; the model returns the error
  (if any) together with the state after the call. The lookup \<^verbatim>\<open>g.Top[node]\<close> that follows the
  check of the type panics on a value that cannot be hashed. The other functions index
  \<^verbatim>\<open>g.Top\<close> only with node values that are part of the graph or are handed in by the caller
  for a node of the graph; those are taken to be usable as keys.
\<close>

definition AddRealNode :: "DGNode \<Rightarrow> state \<Rightarrow> panic + error option \<times> state" where
  "AddRealNode node s =
     (if \<not> Comparable (Obj s node) then Inr (Some NotComparable, s)
      else if \<not> Hashable (Obj s node) then Inl UnhashableKey
      else if map_of (Top s) node = None then Inr (None, s\<lparr>Top := Top s @ [(node, [])]\<rparr>)
      else Inr (Some NodeAlreadyExists, s))"

text \<open>
  One round of the loop of \<^verbatim>\<open>AddRealEdge\<close>, for the entry \<open>(i, k)\<close> of \<open>Top\<close>. The source
  appends \<open>dest\<close> to its loop variable \<open>k\<close> and never stores the slice back into \<open>g.Top\<close>:
  \<open>k'\<close> below is that local slice, and no later statement reads it. The inner loop over
  \<^verbatim>\<open>d.ListSignalers()\<close> that stops at the key \<^verbatim>\<open>i.ID()\<close> is a lookup of that key.
\<close>

definition AddRealEdge_iter :: "int \<Rightarrow> DGNode \<Rightarrow> DGNode \<times> DGNode list \<Rightarrow> state \<Rightarrow> state" where
  "AddRealEdge_iter source d e s =
     (case e of (i, k) \<Rightarrow>
        if ID (Obj s i) = source then
          if \<not> containsDGNode k d then
            (let k' = k @ [d];
                 depSig = ListSignalers (Obj s d);
                 depS = ListSignals (Obj s d);
                 (c, s1) = make_chan s;
                 s2 = UpdateSignaling d (depSig(ID (Obj s1 i) \<mapsto> c)) depS s1;
                 signals = ListSignals (Obj s2 i);
                 signalers = ListSignalers (Obj s2 i);
                 signals' = (case ListSignalers (Obj s2 d) (ID (Obj s2 i)) of
                               Some v \<Rightarrow> signals(ID (Obj s2 d) \<mapsto> v)
                             | None \<Rightarrow> signals)
             in UpdateSignaling i signalers signals' s2)
          else s
        else s)"

text \<open>\<^verbatim>\<open>AddRealEdge\<close> has no result: the model returns the state after the call.\<close>

definition AddRealEdge :: "int \<Rightarrow> DGNode \<Rightarrow> state \<Rightarrow> state" where
  "AddRealEdge source dest s = fold (AddRealEdge_iter source dest) (Top s) s"

definition Dependencies :: "DGNode \<Rightarrow> state \<Rightarrow> DGNode list" where
  "Dependencies np s = (case map_of (Top s) np of None \<Rightarrow> [] | Some v \<Rightarrow> v)"

definition Dependents :: "DGNode \<Rightarrow> state \<Rightarrow> DGNode list" where
  "Dependents np s =
     map fst (filter (\<lambda>(i, v). ID (Obj s i) \<noteq> ID (Obj s np) \<and> containsDGNode v np) (Top s))"

text \<open>
  \<^verbatim>\<open>SignalsAndSignalers\<close>. Indexing a Go map with a missing key gives the zero value, here the
  nil channel. For the entry \<open>(n, l)\<close> the first inner loop makes a channel per dependent of
  \<open>n\<close>; the second reads, for each dependency \<open>dep\<close> in \<open>l\<close>, the outbound map of \<open>dep\<close>
  at the key \<^verbatim>\<open>dep.ID()\<close>.
\<close>

definition index_chan :: "SignalingMap \<Rightarrow> int \<Rightarrow> chan" where
  "index_chan m k = (case m k of None \<Rightarrow> NilChan | Some ch \<Rightarrow> ch)"

definition SignalsAndSignalers_sm ::
  "DGNode \<Rightarrow> SignalingMap \<times> state \<Rightarrow> SignalingMap \<times> state" where
  "SignalsAndSignalers_sm d acc =
     (case acc of (sm, s) \<Rightarrow>
        (let (c, s') = make_chan s in (sm(ID (Obj s' d) \<mapsto> c), s')))"

definition SignalsAndSignalers_s :: "state \<Rightarrow> DGNode \<Rightarrow> SignalsMap \<Rightarrow> SignalsMap" where
  "SignalsAndSignalers_s s dep sg =
     (let channels = ListSignalers (Obj s dep);
          ch = index_chan channels (ID (Obj s dep))
      in sg(ID (Obj s dep) \<mapsto> ch))"

definition SignalsAndSignalers_iter :: "DGNode \<times> DGNode list \<Rightarrow> state \<Rightarrow> state" where
  "SignalsAndSignalers_iter e s =
     (case e of (n, l) \<Rightarrow>
        (let deps = Dependents n s;
             (sm, s1) = fold SignalsAndSignalers_sm deps (Map.empty, s);
             sg = fold (SignalsAndSignalers_s s1) l Map.empty
         in UpdateSignaling n sm sg s1))"

definition SignalsAndSignalers :: "state \<Rightarrow> state" where
  "SignalsAndSignalers s = fold SignalsAndSignalers_iter (Top s) s"

text \<open>
  \<^verbatim>\<open>RemoveVUI\<close>: one round of the loop over \<open>Top\<close>, then the function. \<^verbatim>\<open>delete(g.Top, node)\<close>
  removes the key.
\<close>

definition RemoveVUI_iter :: "DGNode \<Rightarrow> DGNode \<times> DGNode list \<Rightarrow> state \<Rightarrow> state" where
  "RemoveVUI_iter np e s =
     (case e of (n, l) \<Rightarrow>
        if containsDGNode l np then
          (let signals = ListSignals (Obj s n);
               signals' = signals(ID (Obj s np) := None)
           in UpdateSignaling n (ListSignalers (Obj s n)) signals' s)
        else s)"

definition RemoveVUI :: "DGNode \<Rightarrow> state \<Rightarrow> error option \<times> state" where
  "RemoveVUI np s =
     (if \<not> ImplementsUI (Obj s np) then (Some NotAUINode, s)
      else if \<not> IsVirtual (Obj s np) then (Some NotAVirtualNode, s)
      else if length (ListDependencies (Obj s np)) \<noteq> 0 then (Some StillHasDependencies, s)
      else (let s' = fold (RemoveVUI_iter np) (Top s) s
            in (None, s'\<lparr>Top := filter (\<lambda>e. fst e \<noteq> np) (Top s')\<rparr>)))"

section \<open>Cycle detection\<close>

text \<open>\<^verbatim>\<open>g.Top[start]\<close>: the nil slice when the key is missing.\<close>

definition adjacent :: "state \<Rightarrow> DGNode \<Rightarrow> DGNode list" where
  "adjacent g start = (case map_of (Top g) start of None \<Rightarrow> [] | Some adj \<Rightarrow> adj)"

text \<open>
  \<^verbatim>\<open>cycleDfs\<close> and its loop over the adjacency list. In the source the recursive call is
  \<^verbatim>\<open>if result, done := g.cycleDfs(v, seen, done); result { return true, done }\<close>: the \<^verbatim>\<open>:=\<close>
  declares a new \<open>done\<close> that lives only inside the \<^verbatim>\<open>if\<close>, so when the call returns false
  the loop goes on with the \<open>done\<close> it had before the call.
\<close>

function cycleDfs :: "state \<Rightarrow> DGNode \<Rightarrow> DGNode list \<Rightarrow> DGNode list \<Rightarrow> bool \<times> DGNode list"
  and cycleDfs_adj ::
    "state \<Rightarrow> DGNode \<Rightarrow> DGNode list \<Rightarrow> DGNode list \<Rightarrow> DGNode list \<Rightarrow> bool \<times> DGNode list"
where
  "cycleDfs g start seen done = cycleDfs_adj g start (seen @ [start]) done (adjacent g start)"
| "cycleDfs_adj g start seen done [] = (False, done @ [start])"
| "cycleDfs_adj g start seen done (v # adj) =
     (if contains done v then cycleDfs_adj g start seen done adj
      else if contains seen v then (True, done)
      else (case cycleDfs g v seen done of
              (result, done') \<Rightarrow>
                if result then (True, done') else cycleDfs_adj g start seen done adj))"
  by pat_completeness auto
termination
  apply (relation "measures
    [\<lambda>x. case x of
            Inl (g, start, seen, dn) \<Rightarrow> card (fst ` set (Top g) - set (seen @ [start]))
          | Inr (g, start, seen, dn, adj) \<Rightarrow> card (fst ` set (Top g) - set seen),
     \<lambda>x. case x of
            Inl (g, start, seen, dn) \<Rightarrow> 2 * length (adjacent g start) + 3
          | Inr (g, start, seen, dn, adj) \<Rightarrow> 2 * length adj + 2]")
      apply simp_all
  subgoal for g seen dn v adj
  proof (cases "v \<in> fst ` set (Top g)")
    case True
    assume "\<not> contains seen v"
    with True have "v \<in> fst ` set (Top g) - set seen"
      by (simp add: contains_def)
    then have "card (fst ` set (Top g) - set seen - {v}) < card (fst ` set (Top g) - set seen)"
      by (intro card_Diff1_less) simp_all
    moreover have "fst ` set (Top g) - insert v (set seen) = fst ` set (Top g) - set seen - {v}"
      by auto
    ultimately show ?thesis by simp
  next
    case False
    then have "map_of (Top g) v = None"
      by (simp add: map_of_eq_None_iff)
    moreover from False
    have "fst ` set (Top g) - insert v (set seen) = fst ` set (Top g) - set seen"
      by auto
    ultimately show ?thesis by (simp add: adjacent_def)
  qed
  done

fun CycleDetect_loop :: "state \<Rightarrow> DGNode list \<Rightarrow> DGNode list \<Rightarrow> bool" where
  "CycleDetect_loop g [] done = False"
| "CycleDetect_loop g (i # rest) done =
     (if \<not> contains done i then
        (case cycleDfs g i [] done of
           (result, d) \<Rightarrow> if result then True else CycleDetect_loop g rest d)
      else CycleDetect_loop g rest done)"

definition CycleDetect :: "state \<Rightarrow> bool" where
  "CycleDetect g = CycleDetect_loop g (map fst (Top g)) []"

text \<open>
  The nodes on which \<^verbatim>\<open>cycleDfs\<close> is entered, in the order of the calls: the same recursion
  as above, with the decisions taken from \<open>cycleDfs\<close> itself.
\<close>

function cycleDfs_visits :: "state \<Rightarrow> DGNode \<Rightarrow> DGNode list \<Rightarrow> DGNode list \<Rightarrow> DGNode list"
  and cycleDfs_adj_visits ::
    "state \<Rightarrow> DGNode \<Rightarrow> DGNode list \<Rightarrow> DGNode list \<Rightarrow> DGNode list \<Rightarrow> DGNode list"
where
  "cycleDfs_visits g start seen done =
     start # cycleDfs_adj_visits g start (seen @ [start]) done (adjacent g start)"
| "cycleDfs_adj_visits g start seen done [] = []"
| "cycleDfs_adj_visits g start seen done (v # adj) =
     (if contains done v then cycleDfs_adj_visits g start seen done adj
      else if contains seen v then []
      else cycleDfs_visits g v seen done @
           (if fst (cycleDfs g v seen done) then []
            else cycleDfs_adj_visits g start seen done adj))"
  by pat_completeness auto
termination
  apply (relation "measures
    [\<lambda>x. case x of
            Inl (g, start, seen, dn) \<Rightarrow> card (fst ` set (Top g) - set (seen @ [start]))
          | Inr (g, start, seen, dn, adj) \<Rightarrow> card (fst ` set (Top g) - set seen),
     \<lambda>x. case x of
            Inl (g, start, seen, dn) \<Rightarrow> 2 * length (adjacent g start) + 3
          | Inr (g, start, seen, dn, adj) \<Rightarrow> 2 * length adj + 2]")
      apply simp_all
  subgoal for g seen dn v adj
  proof (cases "v \<in> fst ` set (Top g)")
    case True
    assume "\<not> contains seen v"
    with True have "v \<in> fst ` set (Top g) - set seen"
      by (simp add: contains_def)
    then have "card (fst ` set (Top g) - set seen - {v}) < card (fst ` set (Top g) - set seen)"
      by (intro card_Diff1_less) simp_all
    moreover have "fst ` set (Top g) - insert v (set seen) = fst ` set (Top g) - set seen - {v}"
      by auto
    ultimately show ?thesis by simp
  next
    case False
    then have "map_of (Top g) v = None"
      by (simp add: map_of_eq_None_iff)
    moreover from False
    have "fst ` set (Top g) - insert v (set seen) = fst ` set (Top g) - set seen"
      by auto
    ultimately show ?thesis by (simp add: adjacent_def)
  qed
  done

fun CycleDetect_loop_visits :: "state \<Rightarrow> DGNode list \<Rightarrow> DGNode list \<Rightarrow> DGNode list" where
  "CycleDetect_loop_visits g [] done = []"
| "CycleDetect_loop_visits g (i # rest) done =
     (if \<not> contains done i then
        cycleDfs_visits g i [] done @
        (case cycleDfs g i [] done of
           (result, d) \<Rightarrow> if result then [] else CycleDetect_loop_visits g rest d)
      else CycleDetect_loop_visits g rest done)"

definition CycleDetect_visits :: "state \<Rightarrow> DGNode list" where
  "CycleDetect_visits g = CycleDetect_loop_visits g (map fst (Top g)) []"

text \<open>The dependency relation stored in \<open>Top\<close>, and what it means for it to have a cycle.\<close>

definition edges :: "state \<Rightarrow> (DGNode \<times> DGNode) set" where
  "edges g = {(a, b). b \<in> set (adjacent g a)}"

definition has_cycle :: "state \<Rightarrow> bool" where
  "has_cycle g = (\<exists>n. (n, n) \<in> (edges g)\<^sup>+)"

text \<open>No cycle can be reached from \<open>x\<close>.\<close>

definition cycle_free_from :: "state \<Rightarrow> DGNode \<Rightarrow> bool" where
  "cycle_free_from g x = (\<forall>y. (x, y) \<in> (edges g)\<^sup>* \<longrightarrow> (y, y) \<notin> (edges g)\<^sup>+)"

section \<open>Totality-uniqueness and coverage\<close>








definition uiNodes :: "state \<Rightarrow> DGNode list" where
  "uiNodes s = filter (\<lambda>i. GetType (Obj s i) = UINode) (map fst (Top s))"




text \<open>
  \<^verbatim>\<open>Covered\<close>. Collecting the UI nodes asserts \<^verbatim>\<open>v.(UI)\<close>, which panics on a node of type
  \<open>UINode\<close> that does not implement \<^verbatim>\<open>UI\<close>; \<^verbatim>\<open>*g.DS\<close> and \<^verbatim>\<open>*s\<close> panic on nil.
\<close>

fun Covered_uiSlice :: "state \<Rightarrow> DGNode list \<Rightarrow> panic + DGNode list" where
  "Covered_uiSlice s [] = Inr []"
| "Covered_uiSlice s (v # rest) =
     (if GetType (Obj s v) = UINode then
        (if ImplementsUI (Obj s v) then
           (case Covered_uiSlice s rest of Inl p \<Rightarrow> Inl p | Inr us \<Rightarrow> Inr (v # us))
         else Inl TypeAssertion)
      else Covered_uiSlice s rest)"

fun node_in_some_section :: "state \<Rightarrow> DGNode list \<Rightarrow> Node \<Rightarrow> panic + bool" where
  "node_in_some_section s [] v = Inr False"
| "node_in_some_section s (u # us) v =
     (case GetSection (Obj s u) of
        None \<Rightarrow> Inl NilDereference
      | Some sp \<Rightarrow>
          if containsNode (ListNodes sp) v then Inr True else node_in_some_section s us v)"

fun Covered_nodes :: "state \<Rightarrow> DGNode list \<Rightarrow> Node list \<Rightarrow> panic + bool" where
  "Covered_nodes s uiSlice [] = Inr True"
| "Covered_nodes s uiSlice (v # rest) =
     (case node_in_some_section s uiSlice v of
        Inl p \<Rightarrow> Inl p
      | Inr found \<Rightarrow> if found then Covered_nodes s uiSlice rest else Inr False)"

fun edge_in_some_section :: "state \<Rightarrow> DGNode list \<Rightarrow> Edge \<Rightarrow> panic + bool" where
  "edge_in_some_section s [] v = Inr False"
| "edge_in_some_section s (u # us) v =
     (case GetSection (Obj s u) of
        None \<Rightarrow> Inl NilDereference
      | Some sp \<Rightarrow>
          if containsEdge (ListEdges sp) v then Inr True else edge_in_some_section s us v)"

fun Covered_edges :: "state \<Rightarrow> DGNode list \<Rightarrow> Edge list \<Rightarrow> panic + bool" where
  "Covered_edges s uiSlice [] = Inr True"
| "Covered_edges s uiSlice (v # rest) =
     (case edge_in_some_section s uiSlice v of
        Inl p \<Rightarrow> Inl p
      | Inr found \<Rightarrow> if found then Covered_edges s uiSlice rest else Inr False)"

definition Covered :: "state \<Rightarrow> panic + bool" where
  "Covered s =
     (case Covered_uiSlice s (map fst (Top s)) of
        Inl p \<Rightarrow> Inl p
      | Inr uiSlice \<Rightarrow>
          (case DS s of
             None \<Rightarrow> Inl NilDereference
           | Some ds \<Rightarrow>
               (case Covered_nodes s uiSlice (ListNodes ds) of
                  Inl p \<Rightarrow> Inl p
                | Inr ok \<Rightarrow> if ok then Covered_edges s uiSlice (ListEdges ds) else Inr False)))"

section \<open>The conduit invariant of the specification\<close>

text \<open>
  Every edge (dependent \<open>D\<close>, dependency \<open>P\<close>) of \<open>Top\<close> has one conduit, found as \<open>P\<close>'s
  outbound entry under \<open>D\<close>'s identifier and as \<open>D\<close>'s inbound entry under \<open>P\<close>'s; and the
  maps of the nodes of the topology hold no entry without such an edge.
\<close>

definition conduit_inv :: "state \<Rightarrow> bool" where
  "conduit_inv s =
     ((\<forall>D P. (D, P) \<in> edges s \<longrightarrow>
         (\<exists>c. c \<noteq> NilChan \<and> ListSignalers (Obj s P) (ID (Obj s D)) = Some c \<and>
              ListSignals (Obj s D) (ID (Obj s P)) = Some c)) \<and>
      (\<forall>n\<in>fst ` set (Top s). \<forall>k c. ListSignalers (Obj s n) k = Some c \<longrightarrow>
         (\<exists>D. (D, n) \<in> edges s \<and> ID (Obj s D) = k)) \<and>
      (\<forall>n\<in>fst ` set (Top s). \<forall>k c. ListSignals (Obj s n) k = Some c \<longrightarrow>
         (\<exists>P. (n, P) \<in> edges s \<and> ID (Obj s P) = k)))"

section \<open>Example nodes and graphs\<close>

text \<open>
  A memory of nodes for the examples. Nodes 0 and 1 are UI nodes with identifiers 1 and 2,
  node 2 is a virtual UI node with identifier 3, node 3 is a UI node equal in value to node 0
  (so it has identifier 1 too), node 4 is a virtual UI node that reports a dependency, node 5
  is a temporal node, node 6 is a value of a type that is not comparable, node 7 is a
  temporal node that has the identifier 1 of node 0, and node 8 is a value of a comparable type
  that cannot be hashed. Nodes 10 and 11 are UI nodes with the same fields whose dependency
  lists hold two different temporal nodes, 12 and 13, of equal value. Nodes 14 and 15 are UI
  nodes with the same fields, identifier included, whose dependencies 16 and 17 differ in
  value. Nodes 18 and 19 are UI nodes with the same fields, each depending on the other.
\<close>

definition ui_obj :: "int \<Rightarrow> DGNodeObj" where
  "ui_obj n =
     \<lparr>ID = n, GetType = UINode, ListDependencies = [], ListSignalers = Map.empty,
      ListSignals = Map.empty, Keyability = UsableKey, ImplementsUI = True, IsVirtual = False,
      GetSection = Some \<lparr>ListNodes = [Node 1, Node 2], ListEdges = [Edge (Node 1) (Node 2)]\<rparr>\<rparr>"

definition ex_mem :: "DGNode \<Rightarrow> DGNodeObj" where
  "ex_mem n =
     (if n = 2 then (ui_obj 3)\<lparr>GetType := VUINode, IsVirtual := True\<rparr>
      else if n = 3 then ui_obj 1
      else if n = 4 then (ui_obj 5)\<lparr>GetType := VUINode, IsVirtual := True, ListDependencies := [1]\<rparr>
      else if n = 5 then (ui_obj 6)\<lparr>GetType := TemporalNode, ImplementsUI := False\<rparr>
      else if n = 6 then (ui_obj 7)\<lparr>Keyability := NotComparableType\<rparr>
      else if n = 7 then (ui_obj 1)\<lparr>GetType := TemporalNode, ImplementsUI := False\<rparr>
      else if n = 8 then (ui_obj 9)\<lparr>Keyability := UnhashableValue\<rparr>
      else if n = 10 then (ui_obj 20)\<lparr>ListDependencies := [12]\<rparr>
      else if n = 11 then (ui_obj 20)\<lparr>ListDependencies := [13]\<rparr>
      else if n = 12 \<or> n = 13 then (ui_obj 30)\<lparr>GetType := TemporalNode, ImplementsUI := False\<rparr>
      else if n = 14 then (ui_obj 21)\<lparr>ListDependencies := [16]\<rparr>
      else if n = 15 then (ui_obj 21)\<lparr>ListDependencies := [17]\<rparr>
      else if n = 16 then (ui_obj 31)\<lparr>GetType := TemporalNode, ImplementsUI := False\<rparr>
      else if n = 17 then (ui_obj 32)\<lparr>GetType := TemporalNode, ImplementsUI := False\<rparr>
      else if n = 18 then (ui_obj 22)\<lparr>ListDependencies := [19]\<rparr>
      else if n = 19 then (ui_obj 22)\<lparr>ListDependencies := [18]\<rparr>
      else ui_obj (int n + 1))"

text \<open>The graph after \<^verbatim>\<open>NewGraph()\<close> and the insertion of node 0.\<close>

definition graph_a :: state where
  "graph_a = snd (projr (AddRealNode 0 (NewGraph ex_mem)))"

text \<open>The graph after the further insertion of node 3, which is equal in value to node 0.\<close>

definition graph_twins :: state where
  "graph_twins = snd (projr (AddRealNode 3 graph_a))"




text \<open>The graph after \<^verbatim>\<open>NewGraph()\<close> and the insertion of nodes 0 and 1.\<close>

definition graph_ab :: state where
  "graph_ab = snd (projr (AddRealNode 1 (snd (projr (AddRealNode 0 (NewGraph ex_mem))))))"

text \<open>The graph after \<^verbatim>\<open>NewGraph()\<close> and the insertion of node 0 and of the virtual node 2.\<close>

definition graph_av :: state where
  "graph_av = snd (projr (AddRealNode 2 (snd (projr (AddRealNode 0 (NewGraph ex_mem))))))"

text \<open>
  A graph whose field \<open>Top\<close> says that the virtual node 2 depends on node 0, while node 2
  itself reports no dependency.
\<close>

definition graph_vdep :: state where
  "graph_vdep = (NewGraph ex_mem)\<lparr>Top := [(2, [0]), (0, [])]\<rparr>"

text \<open>
  A wired graph: node 0 depends on the virtual nodes 4 and 2, node 4 depends on node 1 and
  reports so, and the temporal node 5 stands alone. Each of the three edges has its conduit in
  the outbound map of the dependency and the inbound map of the dependent.
\<close>

definition graph_wired :: state where
  "graph_wired =
     \<lparr>DS = None,
      Top = [(0, [4, 2]), (1, []), (2, []), (4, [1]), (5, [])],
      Obj = ex_mem
        (0 := (ex_mem 0)\<lparr>ListSignals := [5 \<mapsto> Chan 0, 3 \<mapsto> Chan 1]\<rparr>,
         1 := (ex_mem 1)\<lparr>ListSignalers := [5 \<mapsto> Chan 2]\<rparr>,
         2 := (ex_mem 2)\<lparr>ListSignalers := [1 \<mapsto> Chan 1]\<rparr>,
         4 := (ex_mem 4)\<lparr>ListSignalers := [1 \<mapsto> Chan 0], ListSignals := [2 \<mapsto> Chan 2]\<rparr>),
      Chans = 3\<rparr>"

text \<open>A graph whose field \<open>Top\<close> holds the chain 0 \<open>\<rightarrow>\<close> 1, with node 0 first in the iteration.\<close>

definition graph_chain :: state where
  "graph_chain = (NewGraph ex_mem)\<lparr>Top := [(0, [1]), (1, [])]\<rparr>"

text \<open>A diamond: node 0 depends on 1 and 2, and both depend on 3; node 0 first again.\<close>

definition graph_diamond :: state where
  "graph_diamond = (NewGraph ex_mem)\<lparr>Top := [(0, [1, 2]), (1, [3]), (2, [3]), (3, [])]\<rparr>"

text \<open>Host structures with nodes 1, 2, 3 and with nodes 1, 2.\<close>

definition host123 :: CDS where
  "host123 = \<lparr>ListNodes = [Node 1, Node 2, Node 3], ListEdges = [Edge (Node 1) (Node 2)]\<rparr>"

definition host12 :: CDS where
  "host12 = \<lparr>ListNodes = [Node 1, Node 2], ListEdges = [Edge (Node 1) (Node 2)]\<rparr>"

section \<open>Frame lemmas for the edge loop\<close>

lemma AddRealEdge_iter_Top: "Top (AddRealEdge_iter source d e s) = Top s"
  by (cases e) (simp add: AddRealEdge_iter_def UpdateSignaling_def make_chan_def Let_def
      split: option.split)

lemma AddRealEdge_iter_DS: "DS (AddRealEdge_iter source d e s) = DS s"
  by (cases e) (simp add: AddRealEdge_iter_def UpdateSignaling_def make_chan_def Let_def
      split: option.split)

lemma AddRealEdge_iter_ID: "ID (Obj (AddRealEdge_iter source d e s) n) = ID (Obj s n)"
  by (cases e) (simp add: AddRealEdge_iter_def UpdateSignaling_def make_chan_def Let_def
      split: option.split)

lemma fold_AddRealEdge_iter_Top: "Top (fold (AddRealEdge_iter source d) es s) = Top s"
  by (induction es arbitrary: s) (simp_all add: AddRealEdge_iter_Top)

lemma fold_AddRealEdge_iter_DS: "DS (fold (AddRealEdge_iter source d) es s) = DS s"
  by (induction es arbitrary: s) (simp_all add: AddRealEdge_iter_DS)

lemma fold_AddRealEdge_iter_ID:
  "ID (Obj (fold (AddRealEdge_iter source d) es s) n) = ID (Obj s n)"
  by (induction es arbitrary: s) (simp_all add: AddRealEdge_iter_ID)

lemma AddRealEdge_Top: "Top (AddRealEdge source dest s) = Top s"
  by (simp add: AddRealEdge_def fold_AddRealEdge_iter_Top)

lemma AddRealEdge_ID: "ID (Obj (AddRealEdge source dest s) n) = ID (Obj s n)"
  by (simp add: AddRealEdge_def fold_AddRealEdge_iter_ID)

lemma AddRealEdge_iter_Chans: "Chans s \<le> Chans (AddRealEdge_iter source d e s)"
  by (cases e) (simp add: AddRealEdge_iter_def UpdateSignaling_def make_chan_def Let_def
      split: option.split)

lemma fold_AddRealEdge_iter_Chans: "Chans s \<le> Chans (fold (AddRealEdge_iter source d) es s)"
proof (induction es arbitrary: s)
  case Nil
  show ?case by simp
next
  case (Cons e es)
  have "Chans s \<le> Chans (AddRealEdge_iter source d e s)"
    by (rule AddRealEdge_iter_Chans)
  also have "\<dots> \<le> Chans (fold (AddRealEdge_iter source d) es (AddRealEdge_iter source d e s))"
    by (rule Cons.IH)
  finally show ?case by simp
qed

text \<open>A round does nothing unless the entry's node has the source identifier and does not list \<open>d\<close>.\<close>

lemma AddRealEdge_iter_skip:
  "\<not> (ID (Obj s (fst e)) = source \<and> d \<notin> set (snd e)) \<Longrightarrow> AddRealEdge_iter source d e s = s"
  by (cases e) (auto simp add: AddRealEdge_iter_def containsDGNode_def)

lemma fold_AddRealEdge_iter_skip:
  "\<forall>e\<in>set es. \<not> (ID (Obj s (fst e)) = source \<and> d \<notin> set (snd e)) \<Longrightarrow>
   fold (AddRealEdge_iter source d) es s = s"
  by (induction es) (simp_all add: AddRealEdge_iter_skip)

text \<open>Otherwise it makes one channel and stores it in both maps.\<close>

lemma AddRealEdge_iter_installs:
  assumes "ID (Obj s i) = source" and "d \<notin> set k"
  shows "ListSignalers (Obj (AddRealEdge_iter source d (i, k) s) d) source = Some (Chan (Chans s))"
    and "ListSignals (Obj (AddRealEdge_iter source d (i, k) s) i) (ID (Obj s d)) = Some (Chan (Chans s))"
    and "Chans (AddRealEdge_iter source d (i, k) s) = Suc (Chans s)"
  using assms
  by (auto simp add: AddRealEdge_iter_def containsDGNode_def UpdateSignaling_def make_chan_def
      Let_def)

text \<open>
  The whole loop: the last round that fires decides the destination's outbound entry, and the
  node of that round holds the same channel in its inbound map.
\<close>

lemma fold_AddRealEdge_iter_installs:
  assumes "\<exists>e\<in>set es. ID (Obj s (fst e)) = source \<and> d \<notin> set (snd e)"
  shows "\<exists>c i k. Chans s \<le> c \<and> c < Chans (fold (AddRealEdge_iter source d) es s) \<and>
           (i, k) \<in> set es \<and> ID (Obj s i) = source \<and> d \<notin> set k \<and>
           ListSignalers (Obj (fold (AddRealEdge_iter source d) es s) d) source = Some (Chan c) \<and>
           ListSignals (Obj (fold (AddRealEdge_iter source d) es s) i) (ID (Obj s d)) = Some (Chan c)"
proof -
  from split_list_last_prop [OF assms]
  obtain xs e ys where es: "es = xs @ e # ys"
    and e: "ID (Obj s (fst e)) = source" "d \<notin> set (snd e)"
    and ys: "\<forall>y\<in>set ys. \<not> (ID (Obj s (fst y)) = source \<and> d \<notin> set (snd y))"
    by blast
  define s1 where "s1 = fold (AddRealEdge_iter source d) xs s"
  define s2 where "s2 = AddRealEdge_iter source d (fst e, snd e) s1"
  have id1: "ID (Obj s1 n) = ID (Obj s n)" for n
    by (simp add: s1_def fold_AddRealEdge_iter_ID)
  have id2: "ID (Obj s2 n) = ID (Obj s n)" for n
    by (simp add: s2_def AddRealEdge_iter_ID id1)
  have ch1: "Chans s \<le> Chans s1"
    by (simp add: s1_def fold_AddRealEdge_iter_Chans)
  have e1: "ID (Obj s1 (fst e)) = source"
    using e by (simp add: id1)
  have rest: "fold (AddRealEdge_iter source d) ys s2 = s2"
    by (rule fold_AddRealEdge_iter_skip) (use ys in \<open>simp add: id2\<close>)
  have final: "fold (AddRealEdge_iter source d) es s = s2"
    using rest by (simp add: es s1_def s2_def)
  from AddRealEdge_iter_installs [OF e1 e(2)]
  have "ListSignalers (Obj s2 d) source = Some (Chan (Chans s1))"
    and "ListSignals (Obj s2 (fst e)) (ID (Obj s d)) = Some (Chan (Chans s1))"
    and "Chans s2 = Suc (Chans s1)"
    by (simp_all add: s2_def id1)
  moreover have "(fst e, snd e) \<in> set es"
    by (simp add: es)
  ultimately show ?thesis
    unfolding final using ch1 e
    by (intro exI [of _ "Chans s1"] exI [of _ "fst e"] exI [of _ "snd e"]) simp
qed

section \<open>The example graphs, evaluated\<close>

lemma ex_mem_simps:
  "ex_mem 0 = ui_obj 1"
  "ex_mem 1 = ui_obj 2"
  "ex_mem (Suc 0) = ui_obj 2"
  "ex_mem 2 = (ui_obj 3)\<lparr>GetType := VUINode, IsVirtual := True\<rparr>"
  "ex_mem 3 = ui_obj 1"
  "ex_mem 4 = (ui_obj 5)\<lparr>GetType := VUINode, IsVirtual := True, ListDependencies := [1]\<rparr>"
  "ex_mem 5 = (ui_obj 6)\<lparr>GetType := TemporalNode, ImplementsUI := False\<rparr>"
  "ex_mem 6 = (ui_obj 7)\<lparr>Keyability := NotComparableType\<rparr>"
  "ex_mem 7 = (ui_obj 1)\<lparr>GetType := TemporalNode, ImplementsUI := False\<rparr>"
  "ex_mem 8 = (ui_obj 9)\<lparr>Keyability := UnhashableValue\<rparr>"
  "ex_mem 10 = (ui_obj 20)\<lparr>ListDependencies := [12]\<rparr>"
  "ex_mem 11 = (ui_obj 20)\<lparr>ListDependencies := [13]\<rparr>"
  "ex_mem 12 = (ui_obj 30)\<lparr>GetType := TemporalNode, ImplementsUI := False\<rparr>"
  "ex_mem 13 = (ui_obj 30)\<lparr>GetType := TemporalNode, ImplementsUI := False\<rparr>"
  "ex_mem 14 = (ui_obj 21)\<lparr>ListDependencies := [16]\<rparr>"
  "ex_mem 15 = (ui_obj 21)\<lparr>ListDependencies := [17]\<rparr>"
  "ex_mem 16 = (ui_obj 31)\<lparr>GetType := TemporalNode, ImplementsUI := False\<rparr>"
  "ex_mem 17 = (ui_obj 32)\<lparr>GetType := TemporalNode, ImplementsUI := False\<rparr>"
  "ex_mem 18 = (ui_obj 22)\<lparr>ListDependencies := [19]\<rparr>"
  "ex_mem 19 = (ui_obj 22)\<lparr>ListDependencies := [18]\<rparr>"
  by (simp_all add: ex_mem_def)

lemma graph_a_eq: "graph_a = \<lparr>DS = None, Top = [(0, [])], Obj = ex_mem, Chans = 0\<rparr>"
  by (simp add: graph_a_def AddRealNode_def Comparable_def Hashable_def NewGraph_def ex_mem_def
      ui_obj_def)

lemma graph_twins_eq:
  "graph_twins = \<lparr>DS = None, Top = [(0, []), (3, [])], Obj = ex_mem, Chans = 0\<rparr>"
  by (simp add: graph_twins_def graph_a_eq AddRealNode_def Comparable_def Hashable_def ex_mem_simps
      ui_obj_def)

lemma graph_ab_eq: "graph_ab = \<lparr>DS = None, Top = [(0, []), (1, [])], Obj = ex_mem, Chans = 0\<rparr>"
  by (simp add: graph_ab_def AddRealNode_def Comparable_def Hashable_def NewGraph_def ex_mem_def
      ui_obj_def)

lemma graph_av_eq: "graph_av = \<lparr>DS = None, Top = [(0, []), (2, [])], Obj = ex_mem, Chans = 0\<rparr>"
  by (simp add: graph_av_def AddRealNode_def Comparable_def Hashable_def NewGraph_def ex_mem_def
      ui_obj_def)

text \<open>Each of these graphs is what the insertions return: no call panics or fails.\<close>

lemma example_graphs_built:
  "AddRealNode 0 (NewGraph ex_mem) = Inr (None, graph_a)"
  "AddRealNode 3 graph_a = Inr (None, graph_twins)"
  "AddRealNode 1 graph_a = Inr (None, graph_ab)"
  "AddRealNode 2 graph_a = Inr (None, graph_av)"
  by (simp_all add: graph_a_eq graph_twins_eq graph_ab_eq graph_av_eq AddRealNode_def
      Comparable_def Hashable_def NewGraph_def ex_mem_simps ui_obj_def)

lemma graph_chain_eq:
  "graph_chain = \<lparr>DS = None, Top = [(0, [1]), (1, [])], Obj = ex_mem, Chans = 0\<rparr>"
  by (simp add: graph_chain_def NewGraph_def)

section \<open>Adding an edge\<close>

lemma AddRealEdge_Dependencies:
  "Dependencies n (AddRealEdge source dest s) = Dependencies n s"
  by (simp add: Dependencies_def AddRealEdge_Top)

text \<open>
  Claim C2. For every graph and every call \<^verbatim>\<open>AddRealEdge(source, dest)\<close> the mapping \<open>Top\<close> is
  the same after the call as before it, so \<^verbatim>\<open>Dependencies(n)\<close> returns the same list for every
  node \<open>n\<close>. The call has no error result (the model returns the state alone). When some
  entry of \<open>Top\<close> has the source identifier and does not list \<open>dest\<close>, the call nevertheless
  makes a channel \<open>c\<close> (one made during this call) and leaves it as the entry under \<open>source\<close>
  of the destination's outbound map and as the entry under the destination's identifier of
  the inbound map of a node with the source identifier.
\<close>

theorem AddRealEdge_leaves_Top:
  "Top (AddRealEdge source dest s) = Top s \<and>
   (\<forall>n. Dependencies n (AddRealEdge source dest s) = Dependencies n s) \<and>
   ((\<exists>e\<in>set (Top s). ID (Obj s (fst e)) = source \<and> \<not> containsDGNode (snd e) dest) \<longrightarrow>
    (\<exists>c i. Chans s \<le> c \<and> c < Chans (AddRealEdge source dest s) \<and>
       i \<in> fst ` set (Top s) \<and> ID (Obj s i) = source \<and>
       ListSignalers (Obj (AddRealEdge source dest s) dest) source = Some (Chan c) \<and>
       ListSignals (Obj (AddRealEdge source dest s) i) (ID (Obj s dest)) = Some (Chan c)))"
proof (intro conjI allI impI)
  show "Top (AddRealEdge source dest s) = Top s"
    by (rule AddRealEdge_Top)
  show "Dependencies n (AddRealEdge source dest s) = Dependencies n s" for n
    by (rule AddRealEdge_Dependencies)
  assume "\<exists>e\<in>set (Top s). ID (Obj s (fst e)) = source \<and> \<not> containsDGNode (snd e) dest"
  then have "\<exists>e\<in>set (Top s). ID (Obj s (fst e)) = source \<and> dest \<notin> set (snd e)"
    by (simp add: containsDGNode_def)
  from fold_AddRealEdge_iter_installs [OF this]
  obtain c i k where "Chans s \<le> c" "c < Chans (AddRealEdge source dest s)"
    "(i, k) \<in> set (Top s)" "ID (Obj s i) = source"
    "ListSignalers (Obj (AddRealEdge source dest s) dest) source = Some (Chan c)"
    "ListSignals (Obj (AddRealEdge source dest s) i) (ID (Obj s dest)) = Some (Chan c)"
    unfolding AddRealEdge_def by blast
  then show "\<exists>c i. Chans s \<le> c \<and> c < Chans (AddRealEdge source dest s) \<and>
       i \<in> fst ` set (Top s) \<and> ID (Obj s i) = source \<and>
       ListSignalers (Obj (AddRealEdge source dest s) dest) source = Some (Chan c) \<and>
       ListSignals (Obj (AddRealEdge source dest s) i) (ID (Obj s dest)) = Some (Chan c)"
    by (intro exI [of _ c] exI [of _ i]) force
qed

text \<open>On the graph of nodes 0 and 1: the edge from node 0 (identifier 1) to node 1.\<close>

theorem AddRealEdge_leaves_Top_witness:
  "Top (AddRealEdge 1 1 graph_ab) = [(0, []), (1, [])] \<and>
   Dependencies 0 (AddRealEdge 1 1 graph_ab) = [] \<and>
   (\<exists>c. ListSignalers (Obj (AddRealEdge 1 1 graph_ab) 1) 1 = Some c)"
proof -
  have top: "Top graph_ab = [(0, []), (1, [])]" and obj: "Obj graph_ab = ex_mem"
    by (simp_all add: graph_ab_eq)
  have hyp: "\<exists>e\<in>set (Top graph_ab). ID (Obj graph_ab (fst e)) = 1 \<and> \<not> containsDGNode (snd e) 1"
    by (simp add: top obj ex_mem_simps ui_obj_def containsDGNode_def)
  have dep: "Dependencies 0 graph_ab = []"
    by (simp add: Dependencies_def top)
  from AddRealEdge_leaves_Top [of 1 1 graph_ab] hyp dep top show ?thesis
    by auto
qed

text \<open>
  When the node \<open>i\<close> is the only one of the topology with the source identifier and does
  not list \<open>d\<close>, the conduit made by the call joins \<open>d\<close> and \<open>i\<close>.
\<close>

lemma AddRealEdge_installs:
  assumes "(i, k) \<in> set (Top s)" and "ID (Obj s i) = source" and "d \<notin> set k"
    and "\<forall>e\<in>set (Top s). ID (Obj s (fst e)) = source \<longrightarrow> fst e = i"
  shows "\<exists>c\<ge>Chans s. ListSignalers (Obj (AddRealEdge source d s) d) source = Some (Chan c) \<and>
           ListSignals (Obj (AddRealEdge source d s) i) (ID (Obj s d)) = Some (Chan c)"
proof -
  from assms(1-3) have "\<exists>e\<in>set (Top s). ID (Obj s (fst e)) = source \<and> d \<notin> set (snd e)"
    by force
  from fold_AddRealEdge_iter_installs [OF this]
  obtain c j l where c: "Chans s \<le> c" and j: "(j, l) \<in> set (Top s)" "ID (Obj s j) = source"
    and maps: "ListSignalers (Obj (AddRealEdge source d s) d) source = Some (Chan c)"
      "ListSignals (Obj (AddRealEdge source d s) j) (ID (Obj s d)) = Some (Chan c)"
    unfolding AddRealEdge_def by blast
  from j assms(4) have "j = i"
    by force
  with c maps show ?thesis
    by blast
qed

text \<open>
  Claim C10, as the code has it. \<^verbatim>\<open>AddRealEdge\<close> has no check for a self-referential edge and
  no error result. For a node \<open>n\<close> of the topology whose identifier no other node of the
  topology has and whose dependency list does not hold \<open>n\<close>, the call with source \<open>n.ID()\<close>
  and destination \<open>n\<close> is carried out: one channel made during the call becomes both \<open>n\<close>'s
  outbound entry and \<open>n\<close>'s inbound entry under the key \<open>n.ID()\<close>.
\<close>

theorem AddRealEdge_self_installs:
  assumes "(n, k) \<in> set (Top s)" and "n \<notin> set k"
    and "\<forall>e\<in>set (Top s). ID (Obj s (fst e)) = ID (Obj s n) \<longrightarrow> fst e = n"
  shows "\<exists>c\<ge>Chans s.
           ListSignalers (Obj (AddRealEdge (ID (Obj s n)) n s) n) (ID (Obj s n)) = Some (Chan c) \<and>
           ListSignals (Obj (AddRealEdge (ID (Obj s n)) n s) n) (ID (Obj s n)) = Some (Chan c)"
  using AddRealEdge_installs [OF assms(1) refl assms(2) assms(3)] .

theorem AddRealEdge_self_installs_witness:
  "(0, []) \<in> set (Top graph_ab) \<and>
   (\<exists>c. ListSignalers (Obj (AddRealEdge (ID (Obj graph_ab 0)) 0 graph_ab) 0)
           (ID (Obj graph_ab 0)) = Some c)"
proof -
  have top: "Top graph_ab = [(0, []), (1, [])]" and obj: "Obj graph_ab = ex_mem"
    by (simp_all add: graph_ab_eq)
  have h1: "(0, []) \<in> set (Top graph_ab)"
    by (simp add: top)
  have h2: "(0::nat) \<notin> set []"
    by simp
  have h3: "\<forall>e\<in>set (Top graph_ab). ID (Obj graph_ab (fst e)) = ID (Obj graph_ab 0) \<longrightarrow> fst e = 0"
    by (simp add: top obj ex_mem_simps ui_obj_def)
  from AddRealEdge_self_installs [OF h1 h2 h3] h1 show ?thesis
    by blast
qed

text \<open>
  The claim as the specification states it fails on the graph of nodes 0 and 1: the
  self-referential call on node 0 changes the outbound map of node 0.
\<close>

theorem AddRealEdge_self_counterexample:
  "ListSignalers (Obj (AddRealEdge (ID (Obj graph_ab 0)) 0 graph_ab) 0)
     \<noteq> ListSignalers (Obj graph_ab 0)"
proof
  assume eq: "ListSignalers (Obj (AddRealEdge (ID (Obj graph_ab 0)) 0 graph_ab) 0)
     = ListSignalers (Obj graph_ab 0)"
  have "ListSignalers (Obj (AddRealEdge (ID (Obj graph_ab 0)) 0 graph_ab) 0) 1 = Some (Chan 0)"
    by (simp add: graph_ab_eq AddRealEdge_def AddRealEdge_iter_def containsDGNode_def
        make_chan_def UpdateSignaling_def ex_mem_simps ui_obj_def)
  moreover have "ListSignalers (Obj graph_ab 0) 1 = None"
    by (simp add: graph_ab_eq ex_mem_simps ui_obj_def)
  ultimately show False
    using eq by simp
qed

text \<open>
  Claim C1, as the code has it. \<^verbatim>\<open>AddRealEdge\<close> runs no cycle scan, has no error result and
  rolls nothing back. After \<^verbatim>\<open>AddRealEdge(a.ID(), b)\<close>, the call \<^verbatim>\<open>AddRealEdge(b.ID(), a)\<close> is
  carried out like any other: when \<open>b\<close> is a node of the topology, the only one with its
  identifier, and its dependency list does not hold \<open>a\<close>, one channel made during the second
  call becomes \<open>a\<close>'s outbound entry under \<open>b.ID()\<close> and \<open>b\<close>'s inbound entry under \<open>a.ID()\<close>.
\<close>

theorem AddRealEdge_twice_installs:
  assumes "(b, k) \<in> set (Top s)" and "a \<notin> set k"
    and "\<forall>e\<in>set (Top s). ID (Obj s (fst e)) = ID (Obj s b) \<longrightarrow> fst e = b"
  shows "\<exists>c\<ge>Chans (AddRealEdge (ID (Obj s a)) b s).
           ListSignalers (Obj (AddRealEdge (ID (Obj s b)) a (AddRealEdge (ID (Obj s a)) b s)) a)
             (ID (Obj s b)) = Some (Chan c) \<and>
           ListSignals (Obj (AddRealEdge (ID (Obj s b)) a (AddRealEdge (ID (Obj s a)) b s)) b)
             (ID (Obj s a)) = Some (Chan c)"
proof -
  define s1 where "s1 = AddRealEdge (ID (Obj s a)) b s"
  have top: "Top s1 = Top s" and ids: "ID (Obj s1 x) = ID (Obj s x)" for x
    by (simp_all add: s1_def AddRealEdge_Top AddRealEdge_ID)
  have "\<exists>c\<ge>Chans s1.
          ListSignalers (Obj (AddRealEdge (ID (Obj s b)) a s1) a) (ID (Obj s b)) = Some (Chan c) \<and>
          ListSignals (Obj (AddRealEdge (ID (Obj s b)) a s1) b) (ID (Obj s1 a)) = Some (Chan c)"
    by (rule AddRealEdge_installs [where k = k]) (use assms in \<open>simp_all add: top ids\<close>)
  then have "\<exists>c\<ge>Chans s1.
          ListSignalers (Obj (AddRealEdge (ID (Obj s b)) a s1) a) (ID (Obj s b)) = Some (Chan c) \<and>
          ListSignals (Obj (AddRealEdge (ID (Obj s b)) a s1) b) (ID (Obj s a)) = Some (Chan c)"
    by (simp only: ids)
  then show ?thesis
    unfolding s1_def .
qed

theorem AddRealEdge_twice_installs_witness:
  "(1, []) \<in> set (Top graph_ab) \<and>
   (\<exists>c. ListSignalers (Obj (AddRealEdge (ID (Obj graph_ab 1)) 0
            (AddRealEdge (ID (Obj graph_ab 0)) 1 graph_ab)) 0) (ID (Obj graph_ab 1)) = Some c)"
proof -
  have top: "Top graph_ab = [(0, []), (1, [])]" and obj: "Obj graph_ab = ex_mem"
    by (simp_all add: graph_ab_eq)
  have h1: "(1, []) \<in> set (Top graph_ab)"
    by (simp add: top)
  have h2: "(0::nat) \<notin> set []"
    by simp
  have h3: "\<forall>e\<in>set (Top graph_ab). ID (Obj graph_ab (fst e)) = ID (Obj graph_ab 1) \<longrightarrow> fst e = 1"
    by (simp add: top obj ex_mem_simps ui_obj_def)
  from AddRealEdge_twice_installs [OF h1 h2 h3] h1 show ?thesis
    by blast
qed

text \<open>
  The claim as the specification states it fails on the graph of nodes 0 and 1: after the
  edge from node 0 to node 1, the call for the edge from node 1 to node 0 is not undone; the
  outbound map of node 0 differs from what it was before that call.
\<close>

theorem AddRealEdge_twice_counterexample:
  "ListSignalers (Obj (AddRealEdge (ID (Obj graph_ab 1)) 0
       (AddRealEdge (ID (Obj graph_ab 0)) 1 graph_ab)) 0)
     \<noteq> ListSignalers (Obj (AddRealEdge (ID (Obj graph_ab 0)) 1 graph_ab) 0)"
proof
  assume eq: "ListSignalers (Obj (AddRealEdge (ID (Obj graph_ab 1)) 0
       (AddRealEdge (ID (Obj graph_ab 0)) 1 graph_ab)) 0)
     = ListSignalers (Obj (AddRealEdge (ID (Obj graph_ab 0)) 1 graph_ab) 0)"
  have s1: "AddRealEdge (ID (Obj graph_ab 0)) 1 graph_ab =
      \<lparr>DS = None, Top = [(0, []), (1, [])],
       Obj = ex_mem(1 := (ui_obj 2)\<lparr>ListSignalers := [1 \<mapsto> Chan 0]\<rparr>,
                    0 := (ui_obj 1)\<lparr>ListSignals := [2 \<mapsto> Chan 0]\<rparr>),
       Chans = 1\<rparr>"
    by (simp add: graph_ab_eq AddRealEdge_def AddRealEdge_iter_def containsDGNode_def
        make_chan_def UpdateSignaling_def ex_mem_simps ui_obj_def)
  have "ListSignalers (Obj (AddRealEdge (ID (Obj graph_ab 1)) 0
       (AddRealEdge (ID (Obj graph_ab 0)) 1 graph_ab)) 0) 2 = Some (Chan 1)"
    unfolding s1
    by (simp add: graph_ab_eq AddRealEdge_def AddRealEdge_iter_def containsDGNode_def
        make_chan_def UpdateSignaling_def ex_mem_simps ui_obj_def)
  moreover have "ListSignalers (Obj (AddRealEdge (ID (Obj graph_ab 0)) 1 graph_ab) 0) 2 = None"
    unfolding s1 by (simp add: ui_obj_def)
  ultimately show False
    using eq by simp
qed

section \<open>Inserting a node\<close>

text \<open>
  Claim C7, as the code has it. \<^verbatim>\<open>AddRealNode\<close> fails with an error when the type of the node
  is not comparable, and, for a node value that is usable as a map key, when that node value
  itself is already a key of the topology; it compares the node, not its identifier. A failed
  call leaves the graph as it was. A node value that is usable as a map key and is not yet a
  key is registered with an empty dependency list, and the call changes no other entry, no
  node object and not the host structure.
\<close>

theorem AddRealNode_by_key:
  "(\<not> Comparable (Obj s node) \<longrightarrow> AddRealNode node s = Inr (Some NotComparable, s)) \<and>
   (Hashable (Obj s node) \<and> node \<in> fst ` set (Top s) \<longrightarrow>
      AddRealNode node s = Inr (Some NodeAlreadyExists, s)) \<and>
   (Hashable (Obj s node) \<and> node \<notin> fst ` set (Top s) \<longrightarrow>
      (\<exists>s'. AddRealNode node s = Inr (None, s') \<and>
         node \<in> fst ` set (Top s') \<and> Dependencies node s' = [] \<and>
         (\<forall>m. m \<noteq> node \<longrightarrow> map_of (Top s') m = map_of (Top s) m) \<and>
         Obj s' = Obj s \<and> DS s' = DS s))"
proof (intro conjI impI)
  show "AddRealNode node s = Inr (Some NotComparable, s)" if "\<not> Comparable (Obj s node)"
    using that by (simp add: AddRealNode_def)
  show "AddRealNode node s = Inr (Some NodeAlreadyExists, s)"
    if "Hashable (Obj s node) \<and> node \<in> fst ` set (Top s)"
  proof -
    from that have "map_of (Top s) node \<noteq> None"
      by (simp add: map_of_eq_None_iff)
    with that show ?thesis
      by (simp add: AddRealNode_def Comparable_def Hashable_def)
  qed
next
  assume new: "Hashable (Obj s node) \<and> node \<notin> fst ` set (Top s)"
  then have none: "map_of (Top s) node = None"
    by (simp add: map_of_eq_None_iff)
  let ?s' = "s\<lparr>Top := Top s @ [(node, [])]\<rparr>"
  from new none have "AddRealNode node s = Inr (None, ?s')"
    by (simp add: AddRealNode_def Comparable_def Hashable_def)
  moreover have "node \<in> fst ` set (Top ?s')"
    by simp
  moreover have "Dependencies node ?s' = []"
    by (simp add: Dependencies_def none map_add_def split: option.split)
  moreover have "\<forall>m. m \<noteq> node \<longrightarrow> map_of (Top ?s') m = map_of (Top s) m"
    by (simp add: map_add_def split: option.split)
  ultimately show "\<exists>s'. AddRealNode node s = Inr (None, s') \<and>
         node \<in> fst ` set (Top s') \<and> Dependencies node s' = [] \<and>
         (\<forall>m. m \<noteq> node \<longrightarrow> map_of (Top s') m = map_of (Top s) m) \<and>
         Obj s' = Obj s \<and> DS s' = DS s"
    by (intro exI [of _ ?s']) simp
qed

text \<open>On the graph that holds node 0: node 0 again, the non-comparable node 6, and node 1.\<close>

theorem AddRealNode_by_key_witness:
  "AddRealNode 0 graph_a = Inr (Some NodeAlreadyExists, graph_a) \<and>
   AddRealNode 6 graph_a = Inr (Some NotComparable, graph_a) \<and>
   (\<exists>s'. AddRealNode 1 graph_a = Inr (None, s') \<and> Dependencies 1 s' = [] \<and>
      Dependencies 0 s' = Dependencies 0 graph_a)"
proof -
  have h0: "Hashable (Obj graph_a 0) \<and> 0 \<in> fst ` set (Top graph_a)"
    and h6: "\<not> Comparable (Obj graph_a 6)"
    and h1: "Hashable (Obj graph_a 1) \<and> 1 \<notin> fst ` set (Top graph_a)"
    by (simp_all add: graph_a_eq ex_mem_simps ui_obj_def Comparable_def Hashable_def)
  from AddRealNode_by_key [of graph_a 1] h1
  obtain s' where "AddRealNode 1 graph_a = Inr (None, s')" "Dependencies 1 s' = []"
    "map_of (Top s') 0 = map_of (Top graph_a) 0"
    by auto
  then have "\<exists>s'. AddRealNode 1 graph_a = Inr (None, s') \<and> Dependencies 1 s' = [] \<and>
      Dependencies 0 s' = Dependencies 0 graph_a"
    by (auto simp add: Dependencies_def)
  with AddRealNode_by_key [of graph_a 0] AddRealNode_by_key [of graph_a 6] h0 h6
  show ?thesis
    by blast
qed

text \<open>
  The claim as the specification states it fails on the graph that holds node 0. Node 7 is
  another node value with the identifier of node 0, and its insertion succeeds. Node 8 is a
  value that is not usable as a map key although its type is comparable, and its insertion
  does not fail with an error: the lookup in \<open>Top\<close> panics.
\<close>

theorem AddRealNode_counterexample:
  "ID (Obj graph_a 7) = ID (Obj graph_a 0) \<and> map_of (Top graph_a) 0 = Some [] \<and>
   AddRealNode 7 graph_a = Inr (None, graph_a\<lparr>Top := [(0, []), (7, [])]\<rparr>) \<and>
   AddRealNode 8 graph_a = Inl UnhashableKey"
  by (simp add: AddRealNode_def Comparable_def Hashable_def graph_a_eq ex_mem_simps ui_obj_def)

text \<open>The panic, for every value of a comparable type that cannot be hashed.\<close>

lemma AddRealNode_unhashable:
  "Keyability (Obj s node) = UnhashableValue \<Longrightarrow> AddRealNode node s = Inl UnhashableKey"
  by (simp add: AddRealNode_def Comparable_def Hashable_def)

section \<open>Removing a virtual node\<close>

lemma RemoveVUI_iter_Top: "Top (RemoveVUI_iter np e s) = Top s"
  by (cases e) (simp add: RemoveVUI_iter_def UpdateSignaling_def Let_def)

lemma RemoveVUI_iter_ID: "ID (Obj (RemoveVUI_iter np e s) m) = ID (Obj s m)"
  by (cases e) (simp add: RemoveVUI_iter_def UpdateSignaling_def Let_def)

lemma RemoveVUI_iter_keeps_None:
  "ListSignals (Obj s n) (ID (Obj s np)) = None \<Longrightarrow>
   ListSignals (Obj (RemoveVUI_iter np e s) n) (ID (Obj s np)) = None"
  by (cases e) (simp add: RemoveVUI_iter_def UpdateSignaling_def Let_def)

lemma RemoveVUI_iter_deletes:
  "np \<in> set l \<Longrightarrow> ListSignals (Obj (RemoveVUI_iter np (n, l) s) n) (ID (Obj s np)) = None"
  by (simp add: RemoveVUI_iter_def UpdateSignaling_def Let_def containsDGNode_def)

lemma fold_RemoveVUI_iter_Top: "Top (fold (RemoveVUI_iter np) es s) = Top s"
  by (induction es arbitrary: s) (simp_all add: RemoveVUI_iter_Top)

lemma fold_RemoveVUI_iter_keeps_None:
  "ListSignals (Obj s n) (ID (Obj s np)) = None \<Longrightarrow>
   ListSignals (Obj (fold (RemoveVUI_iter np) es s) n) (ID (Obj s np)) = None"
proof (induction es arbitrary: s)
  case Nil
  then show ?case by simp
next
  case (Cons e es)
  let ?s1 = "RemoveVUI_iter np e s"
  have "ListSignals (Obj ?s1 n) (ID (Obj ?s1 np)) = None"
    using Cons.prems by (simp add: RemoveVUI_iter_ID RemoveVUI_iter_keeps_None)
  from Cons.IH [OF this] show ?case
    by (simp add: RemoveVUI_iter_ID)
qed

lemma fold_RemoveVUI_iter_deletes:
  "(n, l) \<in> set es \<Longrightarrow> np \<in> set l \<Longrightarrow>
   ListSignals (Obj (fold (RemoveVUI_iter np) es s) n) (ID (Obj s np)) = None"
proof (induction es arbitrary: s)
  case Nil
  then show ?case by simp
next
  case (Cons e es)
  let ?s1 = "RemoveVUI_iter np e s"
  show ?case
  proof (cases "e = (n, l)")
    case True
    have "ListSignals (Obj ?s1 n) (ID (Obj ?s1 np)) = None"
      using Cons.prems(2) by (simp add: True RemoveVUI_iter_ID RemoveVUI_iter_deletes)
    from fold_RemoveVUI_iter_keeps_None [OF this] show ?thesis
      by (simp add: RemoveVUI_iter_ID)
  next
    case False
    with Cons.prems have "(n, l) \<in> set es"
      by simp
    from Cons.IH [OF this Cons.prems(2), of ?s1] show ?thesis
      by (simp add: RemoveVUI_iter_ID)
  qed
qed

text \<open>What a successful removal does achieve.\<close>

lemma RemoveVUI_success:
  assumes "RemoveVUI np s = (None, s')"
  shows "np \<notin> fst ` set (Top s')"
    and "(n, l) \<in> set (Top s) \<Longrightarrow> np \<in> set l \<Longrightarrow> ListSignals (Obj s' n) (ID (Obj s np)) = None"
proof -
  from assms have s': "s' = (fold (RemoveVUI_iter np) (Top s) s)
      \<lparr>Top := filter (\<lambda>e. fst e \<noteq> np) (Top (fold (RemoveVUI_iter np) (Top s) s))\<rparr>"
    by (simp add: RemoveVUI_def Let_def split: if_splits)
  show "np \<notin> fst ` set (Top s')"
    by (auto simp add: s')
  show "ListSignals (Obj s' n) (ID (Obj s np)) = None" if "(n, l) \<in> set (Top s)" "np \<in> set l"
    using fold_RemoveVUI_iter_deletes [OF that] by (simp add: s')
qed

text \<open>
  Claim C5, as the code has it. \<^verbatim>\<open>RemoveVUI\<close> fails exactly when the node is not a virtual UI
  node or the dependency list that the node itself reports through \<^verbatim>\<open>ListDependencies()\<close> is
  not empty; the dependency list stored for the node in \<open>Top\<close> is not looked at. The error is
  ``Not a UI node'' when the node does not implement \<^verbatim>\<open>UI\<close>, ``Not a virtual node'' when it does
  and \<^verbatim>\<open>IsVirtual()\<close> is false, and ``VUI node still has dependencies'' for a virtual UI node
  that reports a dependency. In every failing case the state after the call, the topology and
  every node's signaling maps included, is the state before it, whereas a call that succeeds
  takes the node out of the topology.
\<close>

theorem RemoveVUI_fails_unchanged:
  "(fst (RemoveVUI np s) \<noteq> None \<longleftrightarrow>
      \<not> ImplementsUI (Obj s np) \<or> \<not> IsVirtual (Obj s np) \<or> ListDependencies (Obj s np) \<noteq> []) \<and>
   (\<not> ImplementsUI (Obj s np) \<longrightarrow> RemoveVUI np s = (Some NotAUINode, s)) \<and>
   (ImplementsUI (Obj s np) \<and> \<not> IsVirtual (Obj s np) \<longrightarrow>
      RemoveVUI np s = (Some NotAVirtualNode, s)) \<and>
   (ImplementsUI (Obj s np) \<and> IsVirtual (Obj s np) \<and> ListDependencies (Obj s np) \<noteq> [] \<longrightarrow>
      RemoveVUI np s = (Some StillHasDependencies, s)) \<and>
   (ListDependencies (Obj s np) \<noteq> [] \<longrightarrow> fst (RemoveVUI np s) \<noteq> None) \<and>
   (fst (RemoveVUI np s) \<noteq> None \<longrightarrow> snd (RemoveVUI np s) = s) \<and>
   (fst (RemoveVUI np s) = None \<longrightarrow> np \<notin> fst ` set (Top (snd (RemoveVUI np s))))"
proof -
  have gone: "np \<notin> fst ` set (Top (snd (RemoveVUI np s)))" if "fst (RemoveVUI np s) = None"
  proof -
    from that have "RemoveVUI np s = (None, snd (RemoveVUI np s))"
      by (metis prod.collapse)
    then show ?thesis
      by (rule RemoveVUI_success(1))
  qed
  have "fst (RemoveVUI np s) \<noteq> None \<longleftrightarrow>
      \<not> ImplementsUI (Obj s np) \<or> \<not> IsVirtual (Obj s np) \<or> ListDependencies (Obj s np) \<noteq> []"
    by (simp add: RemoveVUI_def Let_def)
  moreover have "\<not> ImplementsUI (Obj s np) \<longrightarrow> RemoveVUI np s = (Some NotAUINode, s)"
    by (simp add: RemoveVUI_def)
  moreover have "ImplementsUI (Obj s np) \<and> \<not> IsVirtual (Obj s np) \<longrightarrow>
      RemoveVUI np s = (Some NotAVirtualNode, s)"
    by (simp add: RemoveVUI_def)
  moreover have "ImplementsUI (Obj s np) \<and> IsVirtual (Obj s np) \<and>
      ListDependencies (Obj s np) \<noteq> [] \<longrightarrow> RemoveVUI np s = (Some StillHasDependencies, s)"
    by (simp add: RemoveVUI_def)
  moreover have "ListDependencies (Obj s np) \<noteq> [] \<longrightarrow> fst (RemoveVUI np s) \<noteq> None"
    by (simp add: RemoveVUI_def Let_def)
  moreover have "fst (RemoveVUI np s) \<noteq> None \<longrightarrow> snd (RemoveVUI np s) = s"
    by (simp add: RemoveVUI_def Let_def)
  ultimately show ?thesis
    using gone by blast
qed

text \<open>
  On the wired graph. The virtual node 4 reports a dependency: the call fails, node 4 is
  still a key and its dependent node 0 still holds the conduit under the identifier 5 of
  node 4. The UI node 0 and the temporal node 5 fail with their errors. The virtual node 2
  reports none: that call succeeds, takes the key away and deletes the entry under the
  identifier 3 of node 2 from the inbound map of node 0, so a failed call and a successful one
  differ here.
\<close>

theorem RemoveVUI_fails_unchanged_witness:
  "RemoveVUI 4 graph_wired = (Some StillHasDependencies, graph_wired) \<and>
   map_of (Top graph_wired) 4 = Some [1] \<and>
   ListSignals (Obj graph_wired 0) (ID (Obj graph_wired 4)) = Some (Chan 0) \<and>
   RemoveVUI 0 graph_wired = (Some NotAVirtualNode, graph_wired) \<and>
   RemoveVUI 5 graph_wired = (Some NotAUINode, graph_wired) \<and>
   fst (RemoveVUI 2 graph_wired) = None \<and>
   map_of (Top (snd (RemoveVUI 2 graph_wired))) 2 = None \<and>
   ListSignals (Obj graph_wired 0) (ID (Obj graph_wired 2)) = Some (Chan 1) \<and>
   ListSignals (Obj (snd (RemoveVUI 2 graph_wired)) 0) (ID (Obj graph_wired 2)) = None"
proof -
  have top: "Top graph_wired = [(0, [4, 2]), (1, []), (2, []), (4, [1]), (5, [])]"
    by (simp add: graph_wired_def)
  have o0: "Obj graph_wired 0 = (ui_obj 1)\<lparr>ListSignals := [5 \<mapsto> Chan 0, 3 \<mapsto> Chan 1]\<rparr>"
    and o2: "Obj graph_wired 2 =
      (ui_obj 3)\<lparr>GetType := VUINode, IsVirtual := True, ListSignalers := [1 \<mapsto> Chan 1]\<rparr>"
    and o4: "Obj graph_wired 4 =
      (ui_obj 5)\<lparr>GetType := VUINode, IsVirtual := True, ListDependencies := [1],
        ListSignalers := [1 \<mapsto> Chan 0], ListSignals := [2 \<mapsto> Chan 2]\<rparr>"
    and o5: "Obj graph_wired 5 = (ui_obj 6)\<lparr>GetType := TemporalNode, ImplementsUI := False\<rparr>"
    by (simp_all add: graph_wired_def ex_mem_simps)
  have h4: "ImplementsUI (Obj graph_wired 4) \<and> IsVirtual (Obj graph_wired 4) \<and>
      ListDependencies (Obj graph_wired 4) \<noteq> []"
    by (simp add: o4 ui_obj_def)
  have h0: "ImplementsUI (Obj graph_wired 0) \<and> \<not> IsVirtual (Obj graph_wired 0)"
    by (simp add: o0 ui_obj_def)
  have h5: "\<not> ImplementsUI (Obj graph_wired 5)"
    by (simp add: o5 ui_obj_def)
  have h2: "\<not> (\<not> ImplementsUI (Obj graph_wired 2) \<or> \<not> IsVirtual (Obj graph_wired 2) \<or>
      ListDependencies (Obj graph_wired 2) \<noteq> [])"
    by (simp add: o2 ui_obj_def)
  have r4: "RemoveVUI 4 graph_wired = (Some StillHasDependencies, graph_wired)"
    using RemoveVUI_fails_unchanged [of 4 graph_wired] h4 by simp
  have r0: "RemoveVUI 0 graph_wired = (Some NotAVirtualNode, graph_wired)"
    using RemoveVUI_fails_unchanged [of 0 graph_wired] h0 by simp
  have r5: "RemoveVUI 5 graph_wired = (Some NotAUINode, graph_wired)"
    using RemoveVUI_fails_unchanged [of 5 graph_wired] h5 by simp
  have ok: "fst (RemoveVUI 2 graph_wired) = None"
    using RemoveVUI_fails_unchanged [of 2 graph_wired] h2 by simp
  have "2 \<notin> fst ` set (Top (snd (RemoveVUI 2 graph_wired)))"
    using RemoveVUI_fails_unchanged [of 2 graph_wired] ok by simp
  then have key: "map_of (Top (snd (RemoveVUI 2 graph_wired))) 2 = None"
    by (simp add: map_of_eq_None_iff)
  have "RemoveVUI 2 graph_wired = (None, snd (RemoveVUI 2 graph_wired))"
    using ok by (simp add: prod_eq_iff)
  from RemoveVUI_success(2) [OF this, of 0 "[4, 2]"]
  have entry: "ListSignals (Obj (snd (RemoveVUI 2 graph_wired)) 0) (ID (Obj graph_wired 2)) = None"
    by (simp add: top)
  have b1: "map_of (Top graph_wired) 4 = Some [1]"
    by (simp add: top)
  have b2: "ListSignals (Obj graph_wired 0) (ID (Obj graph_wired 4)) = Some (Chan 0)"
    by (simp add: o0 o4 ui_obj_def)
  have b3: "ListSignals (Obj graph_wired 0) (ID (Obj graph_wired 2)) = Some (Chan 1)"
    by (simp add: o0 o2 ui_obj_def)
  show ?thesis
    by (intro conjI r4 b1 b2 r0 r5 ok key b3 entry)
qed

text \<open>
  The claim as the specification states it fails on the graph whose \<open>Top\<close> gives the virtual
  node 2 the dependency set \<open>[0]\<close>: the node itself reports no dependency, so the call does
  not fail and the node is removed.
\<close>

theorem RemoveVUI_Top_dependencies_counterexample:
  "Dependencies 2 graph_vdep = [0] \<and>
   RemoveVUI 2 graph_vdep = (None, graph_vdep\<lparr>Top := [(0, [])]\<rparr>)"
  by (simp add: graph_vdep_def NewGraph_def Dependencies_def RemoveVUI_def RemoveVUI_iter_def
      containsDGNode_def ex_mem_simps ui_obj_def)

text \<open>The graph of node 0 and the virtual node 2, after the edge from node 0 to node 2.\<close>

lemma graph_av_edge:
  "AddRealEdge (ID (Obj graph_av 0)) 2 graph_av =
     \<lparr>DS = None, Top = [(0, []), (2, [])],
      Obj = ex_mem(2 := (ui_obj 3)\<lparr>GetType := VUINode, IsVirtual := True, ListSignalers := [1 \<mapsto> Chan 0]\<rparr>,
                   0 := (ui_obj 1)\<lparr>ListSignals := [3 \<mapsto> Chan 0]\<rparr>),
      Chans = 1\<rparr>"
  by (simp add: graph_av_eq AddRealEdge_def AddRealEdge_iter_def containsDGNode_def
      make_chan_def UpdateSignaling_def ex_mem_simps ui_obj_def)

text \<open>
  Claim C6, evaluated where the code departs from it. Node 0 and the virtual node 2 are
  inserted and the edge from node 0 to node 2 is added with \<^verbatim>\<open>AddRealEdge\<close>, which puts a
  conduit under the identifier of node 2 into the inbound map of node 0 but records no edge
  in \<open>Top\<close>. \<^verbatim>\<open>RemoveVUI\<close> of node 2 then succeeds and removes the key, and the inbound map of
  the remaining node 0 still holds the entry under the identifier of the removed node.
\<close>

theorem RemoveVUI_leaves_conduit:
  "fst (RemoveVUI 2 (AddRealEdge (ID (Obj graph_av 0)) 2 graph_av)) = None \<and>
   Top (snd (RemoveVUI 2 (AddRealEdge (ID (Obj graph_av 0)) 2 graph_av))) = [(0, [])] \<and>
   ListSignals (Obj (snd (RemoveVUI 2 (AddRealEdge (ID (Obj graph_av 0)) 2 graph_av))) 0)
     (ID (Obj graph_av 2)) = Some (Chan 0)"
  unfolding graph_av_edge
  by (simp add: RemoveVUI_def RemoveVUI_iter_def containsDGNode_def graph_av_eq ex_mem_simps ui_obj_def)

section \<open>The conduit invariant\<close>

text \<open>The graph of nodes 0 and 1, after the edge from node 0 to node 1.\<close>

lemma graph_ab_edge:
  "AddRealEdge (ID (Obj graph_ab 0)) 1 graph_ab =
      \<lparr>DS = None, Top = [(0, []), (1, [])],
       Obj = ex_mem(1 := (ui_obj 2)\<lparr>ListSignalers := [1 \<mapsto> Chan 0]\<rparr>,
                    0 := (ui_obj 1)\<lparr>ListSignals := [2 \<mapsto> Chan 0]\<rparr>),
       Chans = 1\<rparr>"
  by (simp add: graph_ab_eq AddRealEdge_def AddRealEdge_iter_def containsDGNode_def
      make_chan_def UpdateSignaling_def ex_mem_simps ui_obj_def)

text \<open>
  Claim C3, evaluated where the code departs from it. After the insertion of nodes 0 and 1
  the invariant holds. \<^verbatim>\<open>AddRealEdge\<close> for the edge from node 0 to node 1 then installs a
  conduit in the outbound map of node 1 and the inbound map of node 0, and \<open>Top\<close> holds no
  edge for it: a conduit without an edge.
\<close>

theorem AddRealEdge_breaks_conduit_inv:
  "\<not> conduit_inv (AddRealEdge (ID (Obj graph_ab 0)) 1 graph_ab)"
proof
  assume inv: "conduit_inv (AddRealEdge (ID (Obj graph_ab 0)) 1 graph_ab)"
  let ?s = "AddRealEdge (ID (Obj graph_ab 0)) 1 graph_ab"
  have key: "1 \<in> fst ` set (Top ?s)" and entry: "ListSignalers (Obj ?s 1) 1 = Some (Chan 0)"
    unfolding graph_ab_edge by simp_all
  from inv key entry obtain D where "(D, 1) \<in> edges ?s"
    unfolding conduit_inv_def by blast
  then show False
    unfolding graph_ab_edge by (simp add: edges_def adjacent_def split: if_splits)
qed

theorem AddRealEdge_breaks_conduit_inv_witness:
  "conduit_inv graph_ab \<and> \<not> conduit_inv (AddRealEdge (ID (Obj graph_ab 0)) 1 graph_ab)"
proof -
  have "edges graph_ab = {}"
    by (auto simp add: edges_def adjacent_def graph_ab_eq split: if_splits)
  moreover have "ListSignalers (Obj graph_ab n) k = None" "ListSignals (Obj graph_ab n) k = None"
    for n k
    by (simp_all add: graph_ab_eq ex_mem_def ui_obj_def)
  ultimately have "conduit_inv graph_ab"
    by (simp add: conduit_inv_def)
  with AddRealEdge_breaks_conduit_inv show ?thesis
    by simp
qed

text \<open>
  \<^verbatim>\<open>SignalsAndSignalers\<close> does not restore the invariant either. On the chain 0 \<open>\<rightarrow>\<close> 1 it
  makes a channel for the outbound map of node 1, but for the inbound map of node 0 it looks
  into the outbound map of node 1 under the identifier of node 1 itself, finds nothing, and
  stores the nil channel.
\<close>

lemma graph_chain_wired:
  "SignalsAndSignalers graph_chain =
     \<lparr>DS = None, Top = [(0, [1]), (1, [])],
      Obj = ex_mem(0 := (ui_obj 1)\<lparr>ListSignals := [2 \<mapsto> NilChan]\<rparr>,
                   1 := (ui_obj 2)\<lparr>ListSignalers := [1 \<mapsto> Chan 0]\<rparr>),
      Chans = 1\<rparr>"
  by (simp add: graph_chain_eq SignalsAndSignalers_def SignalsAndSignalers_iter_def
      SignalsAndSignalers_sm_def SignalsAndSignalers_s_def index_chan_def Dependents_def
      containsDGNode_def make_chan_def UpdateSignaling_def ex_mem_simps ui_obj_def)

lemma SignalsAndSignalers_breaks_conduit_inv:
  "\<not> conduit_inv (SignalsAndSignalers graph_chain)"
proof
  assume inv: "conduit_inv (SignalsAndSignalers graph_chain)"
  let ?s = "SignalsAndSignalers graph_chain"
  have "(0, 1) \<in> edges ?s"
    unfolding graph_chain_wired by (simp add: edges_def adjacent_def)
  with inv obtain c where "ListSignalers (Obj ?s 1) (ID (Obj ?s 0)) = Some c"
    "ListSignals (Obj ?s 0) (ID (Obj ?s 1)) = Some c"
    unfolding conduit_inv_def by blast
  then show False
    unfolding graph_chain_wired by (simp add: ui_obj_def)
qed

section \<open>Deep equality\<close>









section \<open>Totality-uniqueness\<close>








section \<open>Coverage\<close>

lemma Covered_uiSlice_ok:
  "\<forall>v\<in>set vs. GetType (Obj s v) = UINode \<longrightarrow> ImplementsUI (Obj s v) \<Longrightarrow>
   Covered_uiSlice s vs = Inr (filter (\<lambda>i. GetType (Obj s i) = UINode) vs)"
  by (induction vs) simp_all

lemma node_in_some_section_ok:
  "\<forall>u\<in>set us. GetSection (Obj s u) \<noteq> None \<Longrightarrow>
   node_in_some_section s us v =
     Inr (\<exists>u\<in>set us. \<exists>sp. GetSection (Obj s u) = Some sp \<and> v \<in> set (ListNodes sp))"
  by (induction us) (auto simp add: containsNode_def)

lemma Covered_nodes_ok:
  "\<forall>u\<in>set us. GetSection (Obj s u) \<noteq> None \<Longrightarrow>
   Covered_nodes s us vs =
     Inr (\<forall>v\<in>set vs. \<exists>u\<in>set us. \<exists>sp. GetSection (Obj s u) = Some sp \<and> v \<in> set (ListNodes sp))"
  by (induction vs) (simp_all add: node_in_some_section_ok)

lemma edge_in_some_section_ok:
  "\<forall>u\<in>set us. GetSection (Obj s u) \<noteq> None \<Longrightarrow>
   edge_in_some_section s us v =
     Inr (\<exists>u\<in>set us. \<exists>sp. GetSection (Obj s u) = Some sp \<and> v \<in> set (ListEdges sp))"
  by (induction us) (auto simp add: containsEdge_def)

lemma Covered_edges_ok:
  "\<forall>u\<in>set us. GetSection (Obj s u) \<noteq> None \<Longrightarrow>
   Covered_edges s us vs =
     Inr (\<forall>v\<in>set vs. \<exists>u\<in>set us. \<exists>sp. GetSection (Obj s u) = Some sp \<and> v \<in> set (ListEdges sp))"
  by (induction vs) (simp_all add: edge_in_some_section_ok)

text \<open>
  Claim C9. When the graph has a host structure and every UI node of the topology implements
  \<^verbatim>\<open>UI\<close> and has a section (so that no step of \<^verbatim>\<open>Covered\<close> panics), \<^verbatim>\<open>Covered\<close> returns true
  exactly when every node and every edge of the host structure is listed by the section of at
  least one UI node, and false as soon as some host node or host edge is listed by none.
\<close>

theorem Covered_iff:
  assumes "DS s = Some ds"
    and "\<forall>u\<in>set (uiNodes s). ImplementsUI (Obj s u) \<and> GetSection (Obj s u) \<noteq> None"
  shows "Covered s =
           Inr ((\<forall>v\<in>set (ListNodes ds). \<exists>u\<in>set (uiNodes s). \<exists>sp.
                    GetSection (Obj s u) = Some sp \<and> v \<in> set (ListNodes sp)) \<and>
                (\<forall>e\<in>set (ListEdges ds). \<exists>u\<in>set (uiNodes s). \<exists>sp.
                    GetSection (Obj s u) = Some sp \<and> e \<in> set (ListEdges sp)))"
proof -
  from assms(2) have "\<forall>v\<in>set (map fst (Top s)). GetType (Obj s v) = UINode \<longrightarrow> ImplementsUI (Obj s v)"
    by (simp add: uiNodes_def)
  then have ui: "Covered_uiSlice s (map fst (Top s)) = Inr (uiNodes s)"
    unfolding uiNodes_def by (rule Covered_uiSlice_ok)
  from assms(2) have sec: "\<forall>u\<in>set (uiNodes s). GetSection (Obj s u) \<noteq> None"
    by simp
  show ?thesis
    by (simp add: Covered_def ui assms(1) Covered_nodes_ok [OF sec] Covered_edges_ok [OF sec])
qed

text \<open>
  The example of the specification: the host has nodes 1, 2, 3 and the one UI node's section
  lists 1 and 2, so coverage is false; with host nodes 1 and 2 it is true.
\<close>

theorem Covered_iff_witness:
  "Covered (graph_a\<lparr>DS := Some host123\<rparr>) = Inr False \<and>
   Covered (graph_a\<lparr>DS := Some host12\<rparr>) = Inr True"
proof -
  have ui: "uiNodes (graph_a\<lparr>DS := Some h\<rparr>) = [0]" for h
    by (simp add: uiNodes_def graph_a_eq ex_mem_simps ui_obj_def)
  have ds: "DS (graph_a\<lparr>DS := Some h\<rparr>) = Some h" for h
    by simp
  have ok: "\<forall>u\<in>set (uiNodes (graph_a\<lparr>DS := Some h\<rparr>)).
      ImplementsUI (Obj (graph_a\<lparr>DS := Some h\<rparr>) u) \<and> GetSection (Obj (graph_a\<lparr>DS := Some h\<rparr>) u) \<noteq> None"
    for h
    unfolding ui by (simp add: graph_a_eq ex_mem_simps ui_obj_def)
  from Covered_iff [OF ds ok, of host123] Covered_iff [OF ds ok, of host12]
  show ?thesis
    unfolding ui by (simp add: graph_a_eq ex_mem_simps ui_obj_def host123_def host12_def)
qed

section \<open>Cycle detection: the result\<close>

lemma edges_iff: "(a, b) \<in> edges g \<longleftrightarrow> b \<in> set (adjacent g a)"
  by (simp add: edges_def)

lemma successors_cycle_free:
  assumes "\<forall>v\<in>set (adjacent g x). cycle_free_from g v"
  shows "cycle_free_from g x"
  unfolding cycle_free_from_def
proof (intro allI impI notI)
  fix y
  assume reach: "(x, y) \<in> (edges g)\<^sup>*" and cyc: "(y, y) \<in> (edges g)\<^sup>+"
  from reach have "(x, y) \<in> (edges g)\<^sup>+"
  proof (cases rule: rtranclE)
    case base
    with cyc show ?thesis by simp
  next
    case (step z)
    then show ?thesis by (simp add: rtrancl_into_trancl1)
  qed
  then obtain v where "(x, v) \<in> edges g" "(v, y) \<in> (edges g)\<^sup>*"
    by (blast dest: tranclD)
  with assms cyc show False
    by (auto simp add: cycle_free_from_def edges_iff)
qed

text \<open>
  A search that answers true has found a cycle, provided every node of the current path
  reaches the node the search stands on.
\<close>

lemma cycleDfs_sound:
  "fst (cycleDfs g start seen dn) \<Longrightarrow> \<forall>x\<in>set seen. (x, start) \<in> (edges g)\<^sup>* \<Longrightarrow> has_cycle g"
  "fst (cycleDfs_adj g start seen dn adj) \<Longrightarrow> \<forall>x\<in>set seen. (x, start) \<in> (edges g)\<^sup>* \<Longrightarrow>
     set adj \<subseteq> set (adjacent g start) \<Longrightarrow> has_cycle g"
proof (induction g start seen dn and g start seen dn adj rule: cycleDfs_cycleDfs_adj.induct)
  case (1 g start seen dn)
  then show ?case by simp
next
  case (2 g start seen dn)
  then show ?case by simp
next
  case (3 g start seen dn v adj)
  from "3.prems"(3) have edge: "(start, v) \<in> edges g" and sub: "set adj \<subseteq> set (adjacent g start)"
    by (simp_all add: edges_iff)
  show ?case
  proof (cases "contains dn v")
    case True
    with "3.prems" "3.IH"(1) sub show ?thesis by simp
  next
    case notdone: False
    show ?thesis
    proof (cases "contains seen v")
      case True
      with "3.prems"(2) have "(v, start) \<in> (edges g)\<^sup>*"
        by (simp add: contains_def)
      from this edge have "(v, v) \<in> (edges g)\<^sup>+"
        by (rule rtrancl_into_trancl1)
      then show ?thesis
        by (auto simp add: has_cycle_def)
    next
      case notseen: False
      obtain result d where rec: "cycleDfs g v seen dn = (result, d)"
        by (cases "cycleDfs g v seen dn")
      show ?thesis
      proof (cases result)
        case True
        have "\<forall>x\<in>set seen. (x, v) \<in> (edges g)\<^sup>*"
          using "3.prems"(2) edge by (auto intro: rtrancl_into_rtrancl)
        with "3.IH"(2) [OF notdone notseen] rec True show ?thesis
          by simp
      next
        case False
        with "3.prems"(1) notdone notseen rec
        have "fst (cycleDfs_adj g start seen dn adj)"
          by simp
        from "3.IH"(3) [OF notdone notseen rec [symmetric] False this "3.prems"(2) sub]
        show ?thesis .
      qed
    qed
  qed
qed

text \<open>
  A search that answers false from a node shows that no cycle can be reached from it,
  provided that holds of the nodes in \<open>done\<close>; and it returns \<open>done\<close> with only the node
  itself appended.
\<close>

lemma cycleDfs_complete:
  "\<not> fst (cycleDfs g start seen dn) \<Longrightarrow> \<forall>x\<in>set dn. cycle_free_from g x \<Longrightarrow>
     cycle_free_from g start \<and> snd (cycleDfs g start seen dn) = dn @ [start]"
  "\<not> fst (cycleDfs_adj g start seen dn adj) \<Longrightarrow> \<forall>x\<in>set dn. cycle_free_from g x \<Longrightarrow>
     (\<forall>v\<in>set adj. cycle_free_from g v) \<and> snd (cycleDfs_adj g start seen dn adj) = dn @ [start]"
proof (induction g start seen dn and g start seen dn adj rule: cycleDfs_cycleDfs_adj.induct)
  case (1 g start seen dn)
  then have "(\<forall>v\<in>set (adjacent g start). cycle_free_from g v) \<and>
      snd (cycleDfs_adj g start (seen @ [start]) dn (adjacent g start)) = dn @ [start]"
    by simp
  then show ?case
    by (simp add: successors_cycle_free)
next
  case (2 g start seen dn)
  then show ?case by simp
next
  case (3 g start seen dn v adj)
  show ?case
  proof (cases "contains dn v")
    case True
    with "3.prems" "3.IH"(1) show ?thesis
      by (simp add: contains_def)
  next
    case notdone: False
    from "3.prems"(1) notdone have notseen: "\<not> contains seen v"
      by (auto split: if_splits)
    obtain result d where rec: "cycleDfs g v seen dn = (result, d)"
      by (cases "cycleDfs g v seen dn")
    from "3.prems"(1) notdone notseen rec have res: "\<not> result"
      and rest: "\<not> fst (cycleDfs_adj g start seen dn adj)"
      by (auto split: if_splits)
    from "3.IH"(2) [OF notdone notseen _ "3.prems"(2)] rec res
    have v: "cycle_free_from g v"
      by simp
    from "3.IH"(3) [OF notdone notseen rec [symmetric] res rest "3.prems"(2)]
    have "(\<forall>v\<in>set adj. cycle_free_from g v) \<and>
        snd (cycleDfs_adj g start seen dn adj) = dn @ [start]" .
    with v notdone notseen rec res show ?thesis
      by simp
  qed
qed

lemma CycleDetect_loop_sound: "CycleDetect_loop g ks dn \<Longrightarrow> has_cycle g"
proof (induction ks arbitrary: dn)
  case Nil
  then show ?case by simp
next
  case (Cons i ks)
  show ?case
  proof (cases "contains dn i")
    case True
    with Cons show ?thesis by simp
  next
    case False
    obtain result d where rec: "cycleDfs g i [] dn = (result, d)"
      by (cases "cycleDfs g i [] dn")
    show ?thesis
    proof (cases result)
      case True
      with rec have "fst (cycleDfs g i [] dn)"
        by simp
      then show ?thesis
        by (rule cycleDfs_sound(1)) simp
    next
      case notres: False
      with Cons.prems False rec have "CycleDetect_loop g ks d"
        by simp
      then show ?thesis
        by (rule Cons.IH)
    qed
  qed
qed

lemma CycleDetect_loop_complete:
  "\<not> CycleDetect_loop g ks dn \<Longrightarrow> \<forall>x\<in>set dn. cycle_free_from g x \<Longrightarrow>
   \<forall>k\<in>set ks. cycle_free_from g k"
proof (induction ks arbitrary: dn)
  case Nil
  then show ?case by simp
next
  case (Cons i ks)
  show ?case
  proof (cases "contains dn i")
    case True
    with Cons.prems have "\<not> CycleDetect_loop g ks dn" and "cycle_free_from g i"
      by (simp_all add: contains_def)
    with Cons.IH [OF _ Cons.prems(2)] show ?thesis
      by simp
  next
    case False
    obtain result d where rec: "cycleDfs g i [] dn = (result, d)"
      by (cases "cycleDfs g i [] dn")
    with Cons.prems(1) False have res: "\<not> result" and rest: "\<not> CycleDetect_loop g ks d"
      by (auto split: if_splits)
    from res rec have "\<not> fst (cycleDfs g i [] dn)"
      by simp
    from cycleDfs_complete(1) [OF this Cons.prems(2)] rec
    have i: "cycle_free_from g i" and d: "d = dn @ [i]"
      by simp_all
    with Cons.prems(2) have "\<forall>x\<in>set d. cycle_free_from g x"
      by simp
    from Cons.IH [OF rest this] i show ?thesis
      by simp
  qed
qed

text \<open>
  The result of the scan is right for every graph: \<^verbatim>\<open>CycleDetect\<close> returns true exactly when
  the relation stored in \<open>Top\<close> has a directed cycle, wherever the cycle lies.
\<close>

lemma CycleDetect_iff_has_cycle: "CycleDetect g \<longleftrightarrow> has_cycle g"
proof
  assume "CycleDetect g"
  then show "has_cycle g"
    unfolding CycleDetect_def by (rule CycleDetect_loop_sound)
next
  assume "has_cycle g"
  then obtain n where cyc: "(n, n) \<in> (edges g)\<^sup>+"
    by (auto simp add: has_cycle_def)
  then obtain v where "(n, v) \<in> edges g"
    by (blast dest: tranclD)
  then have "map_of (Top g) n \<noteq> None"
    by (cases "map_of (Top g) n") (simp_all add: edges_iff adjacent_def)
  then have key: "n \<in> set (map fst (Top g))"
    by (simp add: map_of_eq_None_iff)
  show "CycleDetect g"
  proof (rule ccontr)
    assume "\<not> CycleDetect g"
    then have "\<not> CycleDetect_loop g (map fst (Top g)) []"
      by (simp add: CycleDetect_def)
    then have "\<forall>k\<in>set (map fst (Top g)). cycle_free_from g k"
      by (rule CycleDetect_loop_complete) simp
    with key have "cycle_free_from g n"
      by blast
    with cyc show False
      by (auto simp add: cycle_free_from_def)
  qed
qed

section \<open>Cycle detection: the visits\<close>

text \<open>
  Claim C4, evaluated where the code departs from it. On the chain 0 \<open>\<rightarrow>\<close> 1, with node 0
  first in the iteration, the scan answers false, as it should, but it enters \<^verbatim>\<open>cycleDfs\<close>
  on node 1 twice: once below node 0, and once more from the loop of \<^verbatim>\<open>CycleDetect\<close>, because
  the \<open>done\<close> that the first search returned never reached the caller.
\<close>

theorem CycleDetect_visits_chain:
  "CycleDetect_visits graph_chain = [0, 1, 1] \<and>
   count_list (CycleDetect_visits graph_chain) 1 = 2 \<and>
   \<not> CycleDetect graph_chain"
proof -
  have top: "Top graph_chain = [(0, [1]), (1, [])]"
    by (simp add: graph_chain_def NewGraph_def)
  have adj: "adjacent graph_chain 0 = [1]" "adjacent graph_chain 1 = []"
    "adjacent graph_chain (Suc 0) = []"
    by (simp_all add: adjacent_def top)
  have visits: "CycleDetect_visits graph_chain = [0, 1, 1]"
    by (simp add: CycleDetect_visits_def top contains_def adj)
  moreover have "\<not> CycleDetect graph_chain"
    by (simp add: CycleDetect_def top contains_def adj)
  ultimately show ?thesis
    by simp
qed

text \<open>On the diamond the bottom node is entered five times.\<close>

lemma CycleDetect_visits_diamond:
  "CycleDetect_visits graph_diamond = [0, 1, 3, 2, 3, 1, 3, 2, 3, 3] \<and>
   count_list (CycleDetect_visits graph_diamond) 3 = 5"
proof -
  have top: "Top graph_diamond = [(0, [1, 2]), (1, [3]), (2, [3]), (3, [])]"
    by (simp add: graph_diamond_def NewGraph_def)
  have adj: "adjacent graph_diamond 0 = [1, 2]" "adjacent graph_diamond 1 = [3]"
    "adjacent graph_diamond (Suc 0) = [3]" "adjacent graph_diamond 2 = [3]"
    "adjacent graph_diamond 3 = []"
    by (simp_all add: adjacent_def top)
  have "CycleDetect_visits graph_diamond = [0, 1, 3, 2, 3, 1, 3, 2, 3, 3]"
    by (simp add: CycleDetect_visits_def top contains_def adj)
  then show ?thesis
    by simp
qed

text \<open>Adding an edge never changes the answer of the scan, since it leaves \<open>Top\<close> alone.\<close>

lemma CycleDetect_AddRealEdge: "CycleDetect (AddRealEdge source dest s) = CycleDetect s"
  by (simp add: CycleDetect_iff_has_cycle has_cycle_def edges_def adjacent_def AddRealEdge_Top)

end
